theory Spec2Isabelle
  imports Complex_Main "HOL-Library.Multiset"
begin

section \<open>JavaScript values\<close>

text \<open>
  A JavaScript number is NaN, one of the two infinities, or a finite value. Finite values
  are idealised as exact reals: rounding to the nearest double (or float32 inside
  TensorFlow.js), overflow of a finite computation to an infinity, and the sign of zero
  are not modelled. Strings are sequences of ASCII characters; characters outside ASCII
  are left alone by the case mappings and never count as white space.
\<close>

datatype jsnum = NaN | PosInf | NegInf | Fin real

datatype jsval = Undefined | Str string | Num jsnum

datatype error = TypeError | ShapeError

fun truthy :: "jsval \<Rightarrow> bool" where
  "truthy Undefined = False"
| "truthy (Str s) = (s \<noteq> [])"
| "truthy (Num n) = (n \<noteq> NaN \<and> n \<noteq> Fin 0)"



text \<open>\<open>a || b\<close> on values.\<close>

definition jsOr :: "jsval \<Rightarrow> jsval \<Rightarrow> jsval" where
  "jsOr a b = (if truthy a then a else b)"

subsection \<open>Arithmetic\<close>

fun numAdd :: "jsnum \<Rightarrow> jsnum \<Rightarrow> jsnum" where
  "numAdd (Fin a) (Fin b) = Fin (a + b)"
| "numAdd NaN y = NaN"
| "numAdd x NaN = NaN"
| "numAdd PosInf NegInf = NaN"
| "numAdd NegInf PosInf = NaN"
| "numAdd PosInf y = PosInf"
| "numAdd NegInf y = NegInf"
| "numAdd x PosInf = PosInf"
| "numAdd x NegInf = NegInf"

fun numNeg :: "jsnum \<Rightarrow> jsnum" where
  "numNeg (Fin a) = Fin (- a)"
| "numNeg NaN = NaN"
| "numNeg PosInf = NegInf"
| "numNeg NegInf = PosInf"

definition numSub :: "jsnum \<Rightarrow> jsnum \<Rightarrow> jsnum" where
  "numSub x y = numAdd x (numNeg y)"

text \<open>The sign of a number: \<open>None\<close> for NaN, otherwise -1, 0 or 1.\<close>

fun numSign :: "jsnum \<Rightarrow> int option" where
  "numSign NaN = None"
| "numSign PosInf = Some 1"
| "numSign NegInf = Some (- 1)"
| "numSign (Fin a) = Some (if a < 0 then - 1 else if a = 0 then 0 else 1)"

fun signed :: "int \<Rightarrow> jsnum" where
  "signed s = (if s < 0 then NegInf else PosInf)"

fun numMul :: "jsnum \<Rightarrow> jsnum \<Rightarrow> jsnum" where
  "numMul (Fin a) (Fin b) = Fin (a * b)"
| "numMul x y =
     (case (numSign x, numSign y) of
        (Some s, Some t) \<Rightarrow> (if s * t = 0 then NaN else signed (s * t))
      | _ \<Rightarrow> NaN)"

text \<open>Division; a zero divisor counts as positive zero.\<close>

fun numDiv :: "jsnum \<Rightarrow> jsnum \<Rightarrow> jsnum" where
  "numDiv (Fin a) (Fin b) =
     (if b = 0 then (if a = 0 then NaN else if 0 < a then PosInf else NegInf)
      else Fin (a / b))"
| "numDiv (Fin a) PosInf = Fin 0"
| "numDiv (Fin a) NegInf = Fin 0"
| "numDiv PosInf (Fin b) = (if b < 0 then NegInf else PosInf)"
| "numDiv NegInf (Fin b) = (if b < 0 then PosInf else NegInf)"
| "numDiv x y = NaN"

subsection \<open>Strings\<close>

definition upperLetters :: string where
  "upperLetters = ''ABCDEFGHIJKLMNOPQRSTUVWXYZ''"

definition lowerLetters :: string where
  "lowerLetters = ''abcdefghijklmnopqrstuvwxyz''"

definition charLower :: "char \<Rightarrow> char" where
  "charLower c = (case map_of (zip upperLetters lowerLetters) c of Some d \<Rightarrow> d | None \<Rightarrow> c)"

definition charUpper :: "char \<Rightarrow> char" where
  "charUpper c = (case map_of (zip lowerLetters upperLetters) c of Some d \<Rightarrow> d | None \<Rightarrow> c)"

definition toLowerCase :: "string \<Rightarrow> string" where
  "toLowerCase s = map charLower s"

definition toUpperCase :: "string \<Rightarrow> string" where
  "toUpperCase s = map charUpper s"

text \<open>\<open>s.startsWith(p)\<close> and \<open>s.includes(p)\<close>.\<close>

fun startsWith :: "string \<Rightarrow> string \<Rightarrow> bool" where
  "startsWith s [] = True"
| "startsWith [] (p # ps) = False"
| "startsWith (c # cs) (p # ps) = (c = p \<and> startsWith cs ps)"

fun includesStr :: "string \<Rightarrow> string \<Rightarrow> bool" where
  "includesStr [] p = (p = [])"
| "includesStr (c # cs) p = (startsWith (c # cs) p \<or> includesStr cs p)"

subsection \<open>parseInt and parseFloat\<close>

definition isWhite :: "char \<Rightarrow> bool" where
  "isWhite c = (c \<in> set [CHR 0x09, CHR 0x0A, CHR 0x0B, CHR 0x0C, CHR 0x0D, CHR 0x20])"

definition decTable :: "(char \<times> nat) list" where
  "decTable = zip ''0123456789'' [0, 1, 2, 3, 4, 5, 6, 7, 8, 9]"

definition hexTable :: "(char \<times> nat) list" where
  "hexTable = decTable @ zip ''abcdef'' [10, 11, 12, 13, 14, 15]
                       @ zip ''ABCDEF'' [10, 11, 12, 13, 14, 15]"

definition isDigit :: "char \<Rightarrow> bool" where
  "isDigit c = (map_of decTable c \<noteq> None)"


definition isLetter :: "char \<Rightarrow> bool" where
  "isLetter c = (c \<in> set upperLetters \<or> c \<in> set lowerLetters)"

definition digitVal :: "char \<Rightarrow> nat" where
  "digitVal c = (case map_of hexTable c of Some d \<Rightarrow> d | None \<Rightarrow> 0)"

text \<open>The value of a digit string in a radix.\<close>

definition digitsVal :: "nat \<Rightarrow> string \<Rightarrow> nat" where
  "digitsVal radix ds = foldl (\<lambda>a c. radix * a + digitVal c) 0 ds"

text \<open>An optional sign in front of the rest of a literal.\<close>

fun splitSign :: "string \<Rightarrow> real \<times> string" where
  "splitSign [] = (1, [])"
| "splitSign (c # cs) =
     (if c = CHR ''-'' then (- 1, cs) else if c = CHR ''+'' then (1, cs) else (1, c # cs))"


text \<open>The exponent part of a decimal literal: \<open>e\<close> or \<open>E\<close>, an optional sign, digits.\<close>

definition exponentPart :: "string \<Rightarrow> int" where
  "exponentPart s =
     (case s of
        [] \<Rightarrow> 0
      | c # cs \<Rightarrow>
          if c = CHR ''e'' \<or> c = CHR ''E'' then
            (let (sign, r) = splitSign cs; ds = takeWhile isDigit r
             in if ds = [] then 0
                else (if sign < 0 then - int (digitsVal 10 ds) else int (digitsVal 10 ds)))
          else 0)"

text \<open>
  \<open>parseFloat(s)\<close>: leading white space is skipped and the longest prefix that is a
  decimal literal (\<open>Infinity\<close> included) is the value; with no such prefix the result
  is NaN.
\<close>

definition parseFloatStr :: "string \<Rightarrow> jsnum" where
  "parseFloatStr s =
     (let (sign, u) = splitSign (dropWhile isWhite s)
      in if startsWith u ''Infinity'' then (if sign < 0 then NegInf else PosInf)
         else
           let ip = takeWhile isDigit u;
               r1 = dropWhile isDigit u;
               dot = (r1 \<noteq> [] \<and> hd r1 = CHR ''.'');
               fp = (if dot then takeWhile isDigit (tl r1) else []);
               r2 = (if dot then dropWhile isDigit (tl r1) else r1)
           in if ip = [] \<and> fp = [] then NaN
              else Fin (sign * (real (digitsVal 10 ip) + real (digitsVal 10 fp) / 10 ^ length fp)
                          * 10 powi exponentPart r2))"

text \<open>
  The runtime's number formatting is not part of the repository; its functions are
  parameters of the model.
\<close>

record runtime =
  numToString :: "jsnum \<Rightarrow> string"
  toFixed :: "nat \<Rightarrow> jsnum \<Rightarrow> string"

text \<open>The argument of \<open>parseInt\<close> and \<open>parseFloat\<close> is first converted to a string.\<close>

fun toString :: "runtime \<Rightarrow> jsval \<Rightarrow> string" where
  "toString rt Undefined = ''undefined''"
| "toString rt (Str s) = s"
| "toString rt (Num n) = numToString rt n"


definition parseFloat :: "runtime \<Rightarrow> jsval \<Rightarrow> jsnum" where
  "parseFloat rt v = parseFloatStr (toString rt v)"

subsection \<open>Comparison and the error monad\<close>

text \<open>\<open>a < b\<close>, \<open>a === b\<close> and \<open>a <= b\<close> on numbers; every comparison with NaN is false.\<close>

fun numLess :: "jsnum \<Rightarrow> jsnum \<Rightarrow> bool" where
  "numLess (Fin a) (Fin b) = (a < b)"
| "numLess NaN y = False"
| "numLess x NaN = False"
| "numLess NegInf y = (y \<noteq> NegInf)"
| "numLess x PosInf = (x \<noteq> PosInf)"
| "numLess x y = False"

definition numEq :: "jsnum \<Rightarrow> jsnum \<Rightarrow> bool" where
  "numEq a b = (a \<noteq> NaN \<and> a = b)"


text \<open>A thrown exception ends the computation: the rest runs on a normal result only.\<close>

definition bindE :: "error + 'a \<Rightarrow> ('a \<Rightarrow> error + 'b) \<Rightarrow> error + 'b" where
  "bindE m f = (case m of Inl e \<Rightarrow> Inl e | Inr x \<Rightarrow> f x)"

section \<open>Customer feature extraction (dataProcessing.js)\<close>


text \<open>
  The object built for each customer. The one-hot state keys are spread into it from a
  separate object; \<open>preprocessCustomers\<close> later adds the coverage-size keys.
\<close>

record customer =
  customerName :: jsval
  total_devices :: jsnum
  avg_bandwidth_usage :: jsnum
  network_speed :: jsnum
  coverage_size :: string
  wifi_security :: jsnum
  wifi_security_plus :: jsnum
  total_shield :: jsnum
  rx_avg_bps :: jsnum
  tx_avg_bps :: jsnum
  rx_p95_bps :: jsnum
  tx_p95_bps :: jsnum
  rx_max_bps :: jsnum
  tx_max_bps :: jsnum
  rssi_mean :: jsnum
  rssi_median :: jsnum
  rssi_max :: jsnum
  rssi_min :: jsnum
  stateOneHot :: "(string \<times> jsnum) list"
  coverageSizeOneHot :: "(string \<times> jsnum) list"

text \<open>The properties of a customer object, and \<open>customer[key]\<close>.\<close>

definition props :: "customer \<Rightarrow> (string \<times> jsval) list" where
  "props c =
     [(''customerName'', customerName c),
      (''total_devices'', Num (total_devices c)),
      (''avg_bandwidth_usage'', Num (avg_bandwidth_usage c)),
      (''network_speed'', Num (network_speed c)),
      (''coverage_size'', Str (coverage_size c)),
      (''wifi_security'', Num (wifi_security c)),
      (''wifi_security_plus'', Num (wifi_security_plus c)),
      (''total_shield'', Num (total_shield c)),
      (''rx_avg_bps'', Num (rx_avg_bps c)),
      (''tx_avg_bps'', Num (tx_avg_bps c)),
      (''rx_p95_bps'', Num (rx_p95_bps c)),
      (''tx_p95_bps'', Num (tx_p95_bps c)),
      (''rx_max_bps'', Num (rx_max_bps c)),
      (''tx_max_bps'', Num (tx_max_bps c)),
      (''rssi_mean'', Num (rssi_mean c)),
      (''rssi_median'', Num (rssi_median c)),
      (''rssi_max'', Num (rssi_max c)),
      (''rssi_min'', Num (rssi_min c))]
     @ map (\<lambda>(k, n). (k, Num n)) (stateOneHot c)
     @ map (\<lambda>(k, n). (k, Num n)) (coverageSizeOneHot c)"

definition getProp :: "customer \<Rightarrow> string \<Rightarrow> jsval" where
  "getProp c k = (case map_of (props c) k of Some v \<Rightarrow> v | None \<Rightarrow> Undefined)"

definition states :: "string list" where
  "states = [''TX'', ''CA'', ''CT'', ''FL'', ''OH'', ''IN'', ''PA'', ''WV'', ''IL'', ''NV'']"

definition coverageSizes :: "string list" where
  "coverageSizes = [''Small'', ''Medium'', ''Large'']"

text \<open>
  The regular expression \<open>/([\d\.]+)([A-Za-z]+)/\<close>: at the leftmost position where it
  matches, the longest run of digits and dots, then the longest run of letters. A
  shorter run of digits and dots is followed by a digit or a dot, so backtracking finds
  no further match at a position.
\<close>

definition isDigitOrDot :: "char \<Rightarrow> bool" where
  "isDigitOrDot c = (isDigit c \<or> c = CHR ''.'')"

fun speedMatch :: "string \<Rightarrow> (string \<times> string) option" where
  "speedMatch [] = None"
| "speedMatch (c # cs) =
     (let num = takeWhile isDigitOrDot (c # cs);
          unit = takeWhile isLetter (dropWhile isDigitOrDot (c # cs))
      in if num \<noteq> [] \<and> unit \<noteq> [] then Some (num, unit) else speedMatch cs)"

text \<open>
  The network speed (lines 32 to 46). Calling \<open>match\<close> on a truthy value that is not a
  string throws.
\<close>

definition networkSpeed :: "runtime \<Rightarrow> jsval \<Rightarrow> error + jsnum" where
  "networkSpeed rt v =
     (if truthy v then
        (case v of
           Str s \<Rightarrow>
             (case speedMatch s of
                Some (num, unit) \<Rightarrow>
                  (let speedValue = parseFloat rt (Str num);
                       speedUnit = toUpperCase unit
                   in if speedUnit = ''M'' then Inr speedValue
                      else if speedUnit = ''G'' then Inr (numMul speedValue (Fin 1000))
                      else Inr speedValue)
              | None \<Rightarrow> Inr (Fin 0))
         | _ \<Rightarrow> Inl TypeError)
      else Inr (Fin 0))"






text \<open>
  The callback of \<open>customers.map\<close> in \<open>preprocessCustomers\<close> (lines 205 to 228):
  the coverage-size keys are added and the state keys are written again.
\<close>

definition preprocessCustomer :: "customer \<Rightarrow> customer" where
  "preprocessCustomer c =
     c \<lparr> coverageSizeOneHot :=
           map (\<lambda>size. (''coverage_size_'' @ size,
                  if toLowerCase (coverage_size c) = toLowerCase size then Fin 1 else Fin 0))
               coverageSizes,
         stateOneHot :=
           map (\<lambda>st. (''state_'' @ st,
                  if getProp c (''state_'' @ st) = Num (Fin 1) then Fin 1 else Fin 0))
               states \<rparr>"

definition preprocessCustomers :: "customer list \<Rightarrow> customer list" where
  "preprocessCustomers customers = map preprocessCustomer customers"

section \<open>Recommendations (modelPrediction.js)\<close>

record product =
  name :: string
  features :: "string list"
  price :: jsnum

text \<open>
  The entries of \<open>rankedProducts\<close> carry the product's features; those of the returned
  list carry the explanation instead. A score is \<open>None\<close> when \<open>predictionArray[index]\<close>
  is \<open>undefined\<close>.
\<close>

record rankedBase =
  rank :: nat
  productName :: string
  score :: "jsnum option"
  itemPrice :: jsnum

record rankedProduct = rankedBase +
  itemFeatures :: "string list"

record recommendation = rankedBase +
  explanation :: string

record normalizationData =
  inputMax :: "jsnum list"
  inputMin :: "jsnum list"

definition continuousFeatures :: "string list" where
  "continuousFeatures =
     [''total_devices'', ''avg_bandwidth_usage'', ''network_speed'', ''tx_avg_bps'',
      ''rx_p95_bps'', ''tx_p95_bps'', ''rx_max_bps'', ''tx_max_bps'', ''rssi_mean'',
      ''rssi_median'', ''rssi_max'', ''rssi_min'']"

definition categoricalFeatures :: "string list" where
  "categoricalFeatures =
     [''coverage_size_Small'', ''coverage_size_Medium'', ''coverage_size_Large'',
      ''state_TX'', ''state_CA'', ''state_CT'', ''state_FL'', ''state_OH'', ''state_IN'',
      ''state_PA'', ''state_WV'', ''state_IL'', ''state_NV'']"

subsection \<open>Tensors\<close>

text \<open>
  \<open>tf.tensor2d([values])\<close> makes a one-row numeric tensor, modelled as the list of its
  entries; a value that is not a number is refused.
\<close>

fun tensor2d :: "jsval list \<Rightarrow> error + jsnum list" where
  "tensor2d [] = Inr []"
| "tensor2d (Num n # vs) = bindE (tensor2d vs) (\<lambda>r. Inr (n # r))"
| "tensor2d (v # vs) = Inl TypeError"

text \<open>
  An elementwise operation on two one-row tensors: the widths are equal, or one of them
  is 1 and that entry is broadcast; other shapes are refused.
\<close>

definition broadcast :: "(jsnum \<Rightarrow> jsnum \<Rightarrow> jsnum) \<Rightarrow> jsnum list \<Rightarrow> jsnum list \<Rightarrow> error + jsnum list" where
  "broadcast f xs ys =
     (if length xs = length ys then Inr (map2 f xs ys)
      else if length ys = 1 then Inr (map (\<lambda>x. f x (hd ys)) xs)
      else if length xs = 1 then Inr (map (\<lambda>y. f (hd xs) y) ys)
      else Inl ShapeError)"

text \<open>
  \<open>denom.add(denom.equal(0).mul(1e-8))\<close>: the boolean tensor counts as 1 and 0.
\<close>

definition safeDenom :: "jsnum list \<Rightarrow> jsnum list" where
  "safeDenom denom =
     map2 numAdd denom
       (map (\<lambda>isZero. numMul isZero (Fin (1 / 10 ^ 8)))
            (map (\<lambda>d. if numEq d (Fin 0) then Fin 1 else Fin 0) denom))"

text \<open>The normalisation of the continuous inputs (lines 186 to 194).\<close>

definition normalize :: "jsnum list \<Rightarrow> normalizationData \<Rightarrow> error + jsnum list" where
  "normalize inputTensor nd =
     bindE (broadcast numSub (inputMax nd) (inputMin nd)) (\<lambda>denom.
     bindE (broadcast numSub inputTensor (inputMin nd)) (\<lambda>shifted.
     broadcast numDiv shifted (safeDenom denom)))"

subsection \<open>Ranking\<close>

text \<open>
  \<open>Array.prototype.sort\<close> with a comparison function is a stable sort: \<open>a\<close> goes after
  \<open>b\<close> only when \<open>cmp(a, b) > 0\<close>, and a NaN result counts as 0. It is modelled by a
  stable insertion sort, which is the order the language prescribes whenever the
  comparison function is consistent.
\<close>

fun insertBy :: "('a \<Rightarrow> 'a \<Rightarrow> jsnum) \<Rightarrow> 'a \<Rightarrow> 'a list \<Rightarrow> 'a list" where
  "insertBy cmp x [] = [x]"
| "insertBy cmp x (y # ys) =
     (if numLess (Fin 0) (cmp x y) then y # insertBy cmp x ys else x # y # ys)"

definition jsSort :: "('a \<Rightarrow> 'a \<Rightarrow> jsnum) \<Rightarrow> 'a list \<Rightarrow> 'a list" where
  "jsSort cmp xs = foldr (insertBy cmp) xs []"

text \<open>\<open>ToNumber\<close> of a score: \<open>undefined\<close> becomes NaN.\<close>

definition scoreNumber :: "jsnum option \<Rightarrow> jsnum" where
  "scoreNumber s = (case s of Some n \<Rightarrow> n | None \<Rightarrow> NaN)"

text \<open>The comparison function \<open>(a, b) => b.score - a.score\<close>.\<close>

definition byScore :: "rankedProduct \<Rightarrow> rankedProduct \<Rightarrow> jsnum" where
  "byScore a b = numSub (scoreNumber (score b)) (scoreNumber (score a))"

text \<open>\<open>predictionArray[index]\<close>.\<close>

definition scoreAt :: "jsnum list \<Rightarrow> nat \<Rightarrow> jsnum option" where
  "scoreAt predictionArray index =
     (if index < length predictionArray then Some (predictionArray ! index) else None)"

text \<open>\<open>products.map((product, index) => ...)\<close> (lines 205 to 211).\<close>

definition scoredProducts :: "product list \<Rightarrow> jsnum list \<Rightarrow> rankedProduct list" where
  "scoredProducts products predictionArray =
     map (\<lambda>(index, product).
            \<lparr> rank = index + 1, productName = name product,
              score = scoreAt predictionArray index, itemPrice = price product,
              itemFeatures = features product \<rparr>)
         (enumerate 0 products)"

text \<open>\<open>rankedProducts.forEach((product, index) => { product.rank = index + 1 })\<close>.\<close>

definition updateRanks :: "rankedProduct list \<Rightarrow> rankedProduct list" where
  "updateRanks ps = map (\<lambda>(index, product). product \<lparr> rank := index + 1 \<rparr>) (enumerate 0 ps)"

text \<open>The ranked products after sorting and renumbering (lines 205 to 219).\<close>

definition rankedProducts :: "product list \<Rightarrow> jsnum list \<Rightarrow> rankedProduct list" where
  "rankedProducts products predictionArray =
     updateRanks (jsSort byScore (scoredProducts products predictionArray))"

subsection \<open>Explanations\<close>

text \<open>\<open>getState\<close>: the first state whose one-hot key is 1, or \<open>Unknown\<close>.\<close>

fun firstState :: "customer \<Rightarrow> string list \<Rightarrow> string" where
  "firstState c [] = ''Unknown''"
| "firstState c (st # sts) =
     (if getProp c (''state_'' @ st) = Num (Fin 1) then st else firstState c sts)"

definition getState :: "customer \<Rightarrow> string" where
  "getState c = firstState c states"

text \<open>\<open>parts.join(sep)\<close>.\<close>

fun join :: "string \<Rightarrow> string list \<Rightarrow> string" where
  "join sep [] = []"
| "join sep [x] = x"
| "join sep (x # y # ys) = x @ sep @ join sep (y # ys)"

definition generateAIExplanation :: "runtime \<Rightarrow> customer \<Rightarrow> rankedProduct \<Rightarrow> string" where
  "generateAIExplanation rt customer product =
     (let cname = toString rt (jsOr (customerName customer) (Str ''Valued Customer''));
          devices = numToString rt (total_devices customer);
          avgBandwidth = toFixed rt 2 (numDiv (avg_bandwidth_usage customer) (Fin 1000000));
          coverage = coverage_size customer;
          speed = numToString rt (network_speed customer);
          state = getState customer;
          pname = productName product;
          lower = toLowerCase pname;
          explanation =
            ''Hi '' @ cname @ '', based on your current setup, we recommend '' @ pname @ ''.''
      in if includesStr lower ''fiber'' then
           explanation @ '' With your network speed of '' @ speed
             @ '' Mbps and average bandwidth usage of '' @ avgBandwidth
             @ '' Mbps, upgrading to '' @ pname
             @ '' can provide you with faster and more reliable internet connectivity.''
         else if includesStr lower ''whole-home wi-fi'' then
           explanation @ '' Considering you have '' @ devices @ '' devices and a '' @ coverage
             @ '' coverage area, '' @ pname
             @ '' can help eliminate dead zones and ensure seamless connectivity throughout your home.''
         else if includesStr lower ''wi-fi security plus'' then
           explanation @ '' Enhancing your security with '' @ pname
             @ '' ensures comprehensive protection for all your devices, safeguarding against potential threats and vulnerabilities.''
         else if includesStr lower ''wi-fi security'' then
           explanation
             @ '' To protect your network from malicious sites and potential cyber threats, ''
             @ pname @ '' offers advanced security features tailored to your needs.''
         else if includesStr lower ''total shield'' then
           explanation
             @ '' Given your high bandwidth usage and the need for robust security measures, ''
             @ pname @ '' provides comprehensive protection for your network and devices.''
         else if includesStr lower ''my premium tech pro'' then
           explanation @ '' Managing '' @ devices @ '' devices can be challenging. '' @ pname
             @ '' offers premium technical support to ensure all your devices run smoothly and efficiently.''
         else if includesStr lower ''identity protection'' then
           explanation @ '' Living in '' @ state @ '', '' @ pname
             @ '' helps safeguard your personal information, ensuring your data remains secure and protected from unauthorized access.''
         else if includesStr lower ''youtube tv'' then
           explanation @ '' With your streaming needs and network capabilities, '' @ pname
             @ '' offers a seamless TV experience without the need for additional hardware.''
         else if includesStr lower ''additional extender'' then
           explanation @ '' To enhance your Wi-Fi coverage, '' @ pname
             @ '' can help eliminate dead zones and ensure a strong signal throughout your property.''
         else if includesStr lower ''battery back-up for unbreakable wi-fi'' then
           explanation @ '' Ensure uninterrupted internet access during outages with '' @ pname
             @ '', providing reliable backup power for your network.''
         else if includesStr lower ''unbreakable wi-fi'' then
           explanation
             @ '' Maintain a stable internet connection even during unexpected outages with ''
             @ pname @ '', ensuring your connectivity remains uninterrupted.''
         else
           explanation @ '' '' @ join '' '' (itemFeatures product)
             @ ''. Consider adding it to enhance your internet experience.'')"

text \<open>The returned entries (lines 222 to 231).\<close>

definition withExplanation :: "runtime \<Rightarrow> customer \<Rightarrow> rankedProduct \<Rightarrow> recommendation" where
  "withExplanation rt customer product =
     \<lparr> rank = rank product, productName = productName product, score = score product,
       itemPrice = itemPrice product,
       explanation = generateAIExplanation rt customer product \<rparr>"

definition rankedProductsWithExplanations ::
    "runtime \<Rightarrow> customer \<Rightarrow> product list \<Rightarrow> jsnum list \<Rightarrow> recommendation list" where
  "rankedProductsWithExplanations rt customer products predictionArray =
     map (withExplanation rt customer) (rankedProducts products predictionArray)"

subsection \<open>getRecommendations\<close>

text \<open>
  The trained model is an artifact outside the repository: \<open>model\<close> is the value of the
  module's variable after \<open>loadModel\<close>, \<open>None\<close> when loading failed (the failure is
  logged and swallowed), otherwise the prediction function, which refuses an input of
  the wrong width. \<open>normalizationData\<close> is the result of \<open>loadNormalizationData\<close>,
  \<open>None\<close> when the file is missing. The log of the top three entries calls
  \<open>toFixed\<close> on their scores and throws on an \<open>undefined\<close> one.
\<close>

text \<open>Lines 186 to 202: the tensors, the normalisation and the prediction.\<close>

definition predictionArrayOf ::
    "(jsnum list \<Rightarrow> error + jsnum list) option \<Rightarrow> normalizationData
       \<Rightarrow> jsval list \<Rightarrow> jsval list \<Rightarrow> error + jsnum list" where
  "predictionArrayOf model nd inputContinuous inputCategorical =
     bindE (tensor2d inputContinuous) (\<lambda>inputTensor.
     bindE (normalize inputTensor nd) (\<lambda>normalizedContinuousInput.
     bindE (tensor2d inputCategorical) (\<lambda>categoricalTensor.
       case model of
         None \<Rightarrow> Inl TypeError
       | Some predict \<Rightarrow> predict (normalizedContinuousInput @ categoricalTensor))))"

definition getRecommendations ::
    "runtime \<Rightarrow> (jsnum list \<Rightarrow> error + jsnum list) option \<Rightarrow> normalizationData option
       \<Rightarrow> customer \<Rightarrow> product list \<Rightarrow> error + recommendation list" where
  "getRecommendations rt model normData customer products =
     (let preprocessedCustomer = preprocessCustomers [customer] ! 0;
          inputContinuous =
            map (\<lambda>feature. jsOr (getProp preprocessedCustomer feature) (Num (Fin 0)))
                continuousFeatures;
          inputCategorical =
            map (\<lambda>feature. jsOr (getProp preprocessedCustomer feature) (Num (Fin 0)))
                categoricalFeatures
      in case normData of
           None \<Rightarrow> Inr []
         | Some nd \<Rightarrow>
             bindE (predictionArrayOf model nd inputContinuous inputCategorical)
               (\<lambda>predictionArray.
                  let out = rankedProductsWithExplanations rt preprocessedCustomer products
                              predictionArray
                  in if list_ex (\<lambda>prod. score prod = None) (take 3 out) then Inl TypeError
                     else Inr out))"

subsection \<open>Sample data\<close>

definition sampleRuntime :: runtime where
  "sampleRuntime = \<lparr> numToString = (\<lambda>n. ''0''), toFixed = (\<lambda>digits n. ''0.00'') \<rparr>"


definition sampleCustomer :: customer where
  "sampleCustomer =
     \<lparr> customerName = Str ''Ann'', total_devices = Fin 3, avg_bandwidth_usage = Fin 0,
       network_speed = Fin 450, coverage_size = ''Small'', wifi_security = Fin 0,
       wifi_security_plus = Fin 0, total_shield = Fin 0, rx_avg_bps = Fin 0,
       tx_avg_bps = Fin 0, rx_p95_bps = Fin 0, tx_p95_bps = Fin 0, rx_max_bps = Fin 0,
       tx_max_bps = Fin 0, rssi_mean = Fin 0, rssi_median = Fin 0, rssi_max = Fin 0,
       rssi_min = Fin 0,
       stateOneHot =
         [(''state_TX'', Fin 0), (''state_CA'', Fin 1), (''state_CT'', Fin 0),
          (''state_FL'', Fin 0), (''state_OH'', Fin 0), (''state_IN'', Fin 0),
          (''state_PA'', Fin 0), (''state_WV'', Fin 0), (''state_IL'', Fin 0),
          (''state_NV'', Fin 0)],
       coverageSizeOneHot = [] \<rparr>"

definition fiber500 :: product where
  "fiber500 = \<lparr> name = ''Fiber 500'', features = [''Fast internet''], price = Fin 45 \<rparr>"

definition identityProtection :: product where
  "identityProtection =
     \<lparr> name = ''Identity Protection'', features = [''Monitoring''], price = Fin 10 \<rparr>"

definition sampleModel :: "jsnum list \<Rightarrow> error + jsnum list" where
  "sampleModel input = Inr [Fin (1 / 2)]"


text \<open>
  A string in which some digit or dot is directly followed by a letter: exactly the
  strings the regular expression of the network speed matches.
\<close>

definition digitThenLetter :: "string \<Rightarrow> bool" where
  "digitThenLetter s = list_ex (\<lambda>(a, b). isDigitOrDot a \<and> isLetter b) (zip s (tl s))"

text \<open>The fields of an entry other than its rank.\<close>

definition payload :: "rankedProduct \<Rightarrow> string \<times> jsnum option \<times> jsnum \<times> string list" where
  "payload p = (productName p, score p, itemPrice p, itemFeatures p)"






section \<open>The catalog in memory\<close>

text \<open>
  To say what a call leaves untouched, the objects and arrays that
  \<open>getRecommendations\<close> reads and builds are placed in a store. An address is an index
  into the store and allocation appends a cell. Strings and numbers are immutable
  values; the customer record is only read and stays a value.
\<close>

datatype hval = HUndefined | HStr string | HNum jsnum | HRef nat

datatype cell = Obj "(string \<times> hval) list" | Arr "hval list"

type_synonym heap = "cell list"

text \<open>A statement runs on a store and ends normally or by throwing; the store survives both.\<close>

type_synonym 'a prog = "heap \<Rightarrow> (error + 'a) \<times> heap"

definition ret :: "'a \<Rightarrow> 'a prog" where
  "ret x h = (Inr x, h)"

definition throw :: "error \<Rightarrow> 'a prog" where
  "throw e h = (Inl e, h)"

definition bindH :: "'a prog \<Rightarrow> ('a \<Rightarrow> 'b prog) \<Rightarrow> 'b prog" where
  "bindH m f h = (case m h of (Inl e, h1) \<Rightarrow> (Inl e, h1) | (Inr x, h1) \<Rightarrow> f x h1)"

text \<open>An object or array literal allocates a new cell.\<close>

definition alloc :: "cell \<Rightarrow> hval prog" where
  "alloc c h = (Inr (HRef (length h)), h @ [c])"

text \<open>\<open>v.k\<close>: reading a property of \<open>undefined\<close> throws.\<close>

definition getField :: "hval \<Rightarrow> string \<Rightarrow> hval prog" where
  "getField v k h =
     (case v of
        HRef a \<Rightarrow>
          if a < length h then
            (case h ! a of
               Obj fs \<Rightarrow> (Inr (case map_of fs k of Some x \<Rightarrow> x | None \<Rightarrow> HUndefined), h)
             | Arr vs \<Rightarrow> (Inr HUndefined, h))
          else (Inl TypeError, h)
      | HUndefined \<Rightarrow> (Inl TypeError, h)
      | _ \<Rightarrow> (Inr HUndefined, h))"

text \<open>The elements of an array, as \<open>map\<close>, \<open>forEach\<close> and \<open>sort\<close> visit them.\<close>

definition elements :: "hval \<Rightarrow> hval list prog" where
  "elements v h =
     (case v of
        HRef a \<Rightarrow>
          if a < length h then
            (case h ! a of Arr vs \<Rightarrow> (Inr vs, h) | Obj fs \<Rightarrow> (Inl TypeError, h))
          else (Inl TypeError, h)
      | _ \<Rightarrow> (Inl TypeError, h))"

fun setKey :: "string \<Rightarrow> hval \<Rightarrow> (string \<times> hval) list \<Rightarrow> (string \<times> hval) list" where
  "setKey k x [] = [(k, x)]"
| "setKey k x ((k', y) # fs) = (if k = k' then (k, x) # fs else (k', y) # setKey k x fs)"

text \<open>\<open>v.k = x\<close> on an object.\<close>

definition setField :: "hval \<Rightarrow> string \<Rightarrow> hval \<Rightarrow> unit prog" where
  "setField v k x h =
     (case v of
        HRef a \<Rightarrow>
          if a < length h then
            (case h ! a of
               Obj fs \<Rightarrow> (Inr (), h[a := Obj (setKey k x fs)])
             | Arr vs \<Rightarrow> (Inr (), h))
          else (Inl TypeError, h)
      | HUndefined \<Rightarrow> (Inl TypeError, h)
      | _ \<Rightarrow> (Inr (), h))"

text \<open>Writing the elements of an array back in place, as \<open>sort\<close> does.\<close>

definition setElements :: "hval \<Rightarrow> hval list \<Rightarrow> unit prog" where
  "setElements v vs h =
     (case v of
        HRef a \<Rightarrow>
          if a < length h then
            (case h ! a of Arr old \<Rightarrow> (Inr (), h[a := Arr vs]) | Obj fs \<Rightarrow> (Inl TypeError, h))
          else (Inl TypeError, h)
      | _ \<Rightarrow> (Inl TypeError, h))"

text \<open>The callbacks of \<open>map\<close> and \<open>forEach\<close> run on each element with its index.\<close>

fun mapH :: "(nat \<Rightarrow> hval \<Rightarrow> hval prog) \<Rightarrow> nat \<Rightarrow> hval list \<Rightarrow> hval list prog" where
  "mapH f i [] = ret []"
| "mapH f i (x # xs) = bindH (f i x) (\<lambda>y. bindH (mapH f (Suc i) xs) (\<lambda>ys. ret (y # ys)))"

fun forEachH :: "(nat \<Rightarrow> hval \<Rightarrow> unit prog) \<Rightarrow> nat \<Rightarrow> hval list \<Rightarrow> unit prog" where
  "forEachH f i [] = ret ()"
| "forEachH f i (x # xs) = bindH (f i x) (\<lambda>u. forEachH f (Suc i) xs)"

text \<open>\<open>array.map(f)\<close> returns a new array.\<close>

definition arrayMap :: "(nat \<Rightarrow> hval \<Rightarrow> hval prog) \<Rightarrow> hval \<Rightarrow> hval prog" where
  "arrayMap f arr = bindH (elements arr) (\<lambda>vs. bindH (mapH f 0 vs) (\<lambda>rs. alloc (Arr rs)))"

definition scoreValue :: "jsnum list \<Rightarrow> nat \<Rightarrow> hval" where
  "scoreValue predictionArray index =
     (case scoreAt predictionArray index of Some n \<Rightarrow> HNum n | None \<Rightarrow> HUndefined)"

text \<open>The object literal of lines 205 to 211.\<close>

definition scoredObject :: "jsnum list \<Rightarrow> nat \<Rightarrow> hval \<Rightarrow> hval prog" where
  "scoredObject predictionArray index product =
     bindH (getField product ''name'') (\<lambda>n.
     bindH (getField product ''features'') (\<lambda>f.
     bindH (getField product ''price'') (\<lambda>p.
     alloc (Obj [(''rank'', HNum (Fin (real (index + 1)))), (''productName'', n),
                 (''score'', scoreValue predictionArray index), (''features'', f),
                 (''price'', p)]))))"

text \<open>\<open>ToNumber(x.score)\<close> in the comparison function.\<close>

definition scoreOf :: "heap \<Rightarrow> hval \<Rightarrow> jsnum" where
  "scoreOf h v = (case fst (getField v ''score'' h) of Inr (HNum n) \<Rightarrow> n | _ \<Rightarrow> NaN)"

text \<open>\<open>rankedProducts.sort((a, b) => b.score - a.score)\<close> sorts the array in place.\<close>

definition sortByScore :: "hval \<Rightarrow> unit prog" where
  "sortByScore arr =
     bindH (elements arr) (\<lambda>vs h.
       setElements arr (jsSort (\<lambda>a b. numSub (scoreOf h b) (scoreOf h a)) vs) h)"

text \<open>\<open>rankedProducts.forEach((product, index) => { product.rank = index + 1 })\<close>.\<close>

definition updateRanksH :: "hval \<Rightarrow> unit prog" where
  "updateRanksH arr =
     bindH (elements arr)
       (forEachH (\<lambda>index product. setField product ''rank'' (HNum (Fin (real (index + 1))))) 0)"

text \<open>The strings of an array, when it is an array of strings.\<close>

fun theStrings :: "hval list \<Rightarrow> string list option" where
  "theStrings [] = Some []"
| "theStrings (HStr s # vs) = map_option (\<lambda>r. s # r) (theStrings vs)"
| "theStrings (v # vs) = None"

text \<open>
  The view \<open>generateAIExplanation\<close> has of a ranked product in the store; it fails when
  the name is not a string or the features are not an array of strings.
\<close>

definition rankedAt :: "heap \<Rightarrow> hval \<Rightarrow> rankedProduct option" where
  "rankedAt h v =
     (case (fst (getField v ''rank'' h), fst (getField v ''productName'' h),
            fst (getField v ''score'' h), fst (getField v ''price'' h),
            fst (bindH (getField v ''features'') elements h)) of
        (Inr (HNum (Fin r)), Inr (HStr n), Inr s, Inr (HNum p), Inr fs) \<Rightarrow>
          (case (theStrings fs, s) of
             (Some strs, HNum x) \<Rightarrow>
               Some \<lparr> rank = nat \<lfloor>r\<rfloor>, productName = n, score = Some x, itemPrice = p,
                      itemFeatures = strs \<rparr>
           | (Some strs, HUndefined) \<Rightarrow>
               Some \<lparr> rank = nat \<lfloor>r\<rfloor>, productName = n, score = None, itemPrice = p,
                      itemFeatures = strs \<rparr>
           | _ \<Rightarrow> None)
      | _ \<Rightarrow> None)"

definition explanationH :: "runtime \<Rightarrow> customer \<Rightarrow> hval \<Rightarrow> string prog" where
  "explanationH rt customer product h =
     (case rankedAt h product of
        Some p \<Rightarrow> (Inr (generateAIExplanation rt customer p), h)
      | None \<Rightarrow> (Inl TypeError, h))"

text \<open>The callback of lines 222 to 231.\<close>

definition explainedObject :: "runtime \<Rightarrow> customer \<Rightarrow> nat \<Rightarrow> hval \<Rightarrow> hval prog" where
  "explainedObject rt customer index product =
     bindH (explanationH rt customer product) (\<lambda>explanation.
     bindH (getField product ''rank'') (\<lambda>r.
     bindH (getField product ''productName'') (\<lambda>n.
     bindH (getField product ''score'') (\<lambda>s.
     bindH (getField product ''price'') (\<lambda>p.
     alloc (Obj [(''rank'', r), (''productName'', n), (''score'', s), (''price'', p),
                 (''explanation'', HStr explanation)]))))))"

text \<open>The log of the top three entries calls \<open>toFixed\<close> on each score.\<close>

definition logTop :: "hval \<Rightarrow> unit prog" where
  "logTop arr =
     bindH (elements arr) (\<lambda>vs.
       forEachH (\<lambda>index prod.
           bindH (getField prod ''score'') (\<lambda>s. if s = HUndefined then throw TypeError else ret ()))
         0 (take 3 vs))"

text \<open>\<open>getRecommendations\<close> on the store; \<open>products\<close> is the reference to the catalog array.\<close>

definition getRecommendationsH ::
    "runtime \<Rightarrow> (jsnum list \<Rightarrow> error + jsnum list) option \<Rightarrow> normalizationData option
       \<Rightarrow> customer \<Rightarrow> hval \<Rightarrow> hval prog" where
  "getRecommendationsH rt model normData customer products =
     (let preprocessedCustomer = preprocessCustomers [customer] ! 0;
          inputContinuous =
            map (\<lambda>feature. jsOr (getProp preprocessedCustomer feature) (Num (Fin 0)))
                continuousFeatures;
          inputCategorical =
            map (\<lambda>feature. jsOr (getProp preprocessedCustomer feature) (Num (Fin 0)))
                categoricalFeatures
      in case normData of
           None \<Rightarrow> alloc (Arr [])
         | Some nd \<Rightarrow>
             (case predictionArrayOf model nd inputContinuous inputCategorical of
                Inl e \<Rightarrow> throw e
              | Inr predictionArray \<Rightarrow>
                  bindH (arrayMap (scoredObject predictionArray) products) (\<lambda>rankedProducts.
                  bindH (sortByScore rankedProducts) (\<lambda>u.
                  bindH (updateRanksH rankedProducts) (\<lambda>u.
                  bindH (arrayMap (explainedObject rt preprocessedCustomer) rankedProducts)
                    (\<lambda>result.
                  bindH (logTop result) (\<lambda>u. ret result)))))))"

text \<open>A store holding the two sample products and the catalog array, at address 4.\<close>

definition sampleHeap :: heap where
  "sampleHeap =
     [Arr [HStr ''Fast internet''],
      Obj [(''name'', HStr ''Fiber 500''), (''features'', HRef 0), (''price'', HNum (Fin 45))],
      Arr [HStr ''Monitoring''],
      Obj [(''name'', HStr ''Identity Protection''), (''features'', HRef 2),
           (''price'', HNum (Fin 10))],
      Arr [HRef 1, HRef 3]]"

definition sampleData :: normalizationData where
  "sampleData = \<lparr> inputMax = replicate 12 (Fin 1), inputMin = replicate 12 (Fin 0) \<rparr>"

definition twoScores :: "jsnum list \<Rightarrow> error + jsnum list" where
  "twoScores input = Inr [Fin (1 / 2), Fin (3 / 5)]"

text \<open>The product a reference denotes in a store, and the catalog an array denotes.\<close>

definition productAt :: "heap \<Rightarrow> hval \<Rightarrow> product option" where
  "productAt h v =
     (case (fst (getField v ''name'' h), fst (getField v ''price'' h),
            fst (bindH (getField v ''features'') elements h)) of
        (Inr (HStr n), Inr (HNum p), Inr fs) \<Rightarrow>
          map_option (\<lambda>strs. \<lparr> name = n, features = strs, price = p \<rparr>) (theStrings fs)
      | _ \<Rightarrow> None)"

definition catalogAt :: "heap \<Rightarrow> hval \<Rightarrow> product list option" where
  "catalogAt h v =
     (case fst (elements v h) of Inr vs \<Rightarrow> those (map (productAt h) vs) | Inl e \<Rightarrow> None)"

text \<open>The returned list a reference denotes in a store.\<close>

definition recommendationAt :: "heap \<Rightarrow> hval \<Rightarrow> recommendation option" where
  "recommendationAt h v =
     (case (fst (getField v ''rank'' h), fst (getField v ''productName'' h),
            fst (getField v ''score'' h), fst (getField v ''price'' h),
            fst (getField v ''explanation'' h)) of
        (Inr (HNum (Fin r)), Inr (HStr n), Inr (HNum x), Inr (HNum p), Inr (HStr e)) \<Rightarrow>
          Some \<lparr> rank = nat \<lfloor>r\<rfloor>, productName = n, score = Some x, itemPrice = p,
                 explanation = e \<rparr>
      | (Inr (HNum (Fin r)), Inr (HStr n), Inr HUndefined, Inr (HNum p), Inr (HStr e)) \<Rightarrow>
          Some \<lparr> rank = nat \<lfloor>r\<rfloor>, productName = n, score = None, itemPrice = p,
                 explanation = e \<rparr>
      | _ \<Rightarrow> None)"

definition recommendationsAt :: "heap \<Rightarrow> hval \<Rightarrow> recommendation list option" where
  "recommendationsAt h v =
     (case fst (elements v h) of
        Inr vs \<Rightarrow> those (map (recommendationAt h) vs)
      | Inl e \<Rightarrow> None)"

text \<open>The first \<open>n\<close> cells of the store are as before.\<close>

definition unchanged :: "nat \<Rightarrow> heap \<Rightarrow> heap \<Rightarrow> bool" where
  "unchanged n h h' = (n \<le> length h' \<and> take n h' = take n h)"

text \<open>A reference to a cell allocated at address \<open>n\<close> or later.\<close>

fun freshRef :: "nat \<Rightarrow> hval \<Rightarrow> bool" where
  "freshRef n (HRef a) = (n \<le> a)"
| "freshRef n v = False"

text \<open>A fresh array all of whose elements are fresh references.\<close>

fun freshArray :: "nat \<Rightarrow> hval \<Rightarrow> heap \<Rightarrow> bool" where
  "freshArray n (HRef a) h =
     (n \<le> a \<and> a < length h \<and> (case h ! a of Arr vs \<Rightarrow> list_all (freshRef n) vs | Obj fs \<Rightarrow> False))"
| "freshArray n v h = False"

text \<open>
  A statement run on a store of at least \<open>n\<close> cells that satisfies \<open>P\<close> leaves the first
  \<open>n\<close> cells alone, and a normal result satisfies \<open>Q\<close>.
\<close>

definition triple :: "nat \<Rightarrow> (heap \<Rightarrow> bool) \<Rightarrow> 'a prog \<Rightarrow> ('a \<Rightarrow> heap \<Rightarrow> bool) \<Rightarrow> bool" where
  "triple n P m Q =
     (\<forall>h. n \<le> length h \<and> P h \<longrightarrow>
        unchanged n h (snd (m h)) \<and> (\<forall>x. fst (m h) = Inr x \<longrightarrow> Q x (snd (m h))))"

text \<open>A statement that only reads.\<close>

definition reads :: "'a prog \<Rightarrow> bool" where
  "reads m = (\<forall>h. snd (m h) = h)"

text \<open>The value of a property that can be read.\<close>

definition fieldOf :: "heap \<Rightarrow> hval \<Rightarrow> string \<Rightarrow> hval" where
  "fieldOf h v k = (case fst (getField v k h) of Inr x \<Rightarrow> x | Inl e \<Rightarrow> HUndefined)"

text \<open>The cell that the callback of lines 205 to 211 allocates for a product.\<close>

definition scoredCell :: "jsnum list \<Rightarrow> heap \<Rightarrow> nat \<Rightarrow> hval \<Rightarrow> cell" where
  "scoredCell pa h i v =
     Obj [(''rank'', HNum (Fin (real (i + 1)))), (''productName'', fieldOf h v ''name''),
          (''score'', scoreValue pa i), (''features'', fieldOf h v ''features''),
          (''price'', fieldOf h v ''price'')]"

text \<open>The catalog positions in the order of the ranking.\<close>

definition rankOrder :: "jsnum list \<Rightarrow> nat \<Rightarrow> nat list" where
  "rankOrder pa N =
     jsSort (\<lambda>i j. numSub (scoreNumber (scoreAt pa j)) (scoreNumber (scoreAt pa i))) [0..<N]"

text \<open>The entry that \<open>products.map\<close> builds for the product at a position.\<close>

definition entryAt :: "product list \<Rightarrow> jsnum list \<Rightarrow> nat \<Rightarrow> rankedProduct" where
  "entryAt ps pa i =
     \<lparr> rank = i + 1, productName = name (ps ! i), score = scoreAt pa i,
       itemPrice = price (ps ! i), itemFeatures = features (ps ! i) \<rparr>"

text \<open>The cell of a ranked product once its rank is \<open>r\<close>.\<close>

definition rankedCell :: "jsnum list \<Rightarrow> heap \<Rightarrow> nat \<Rightarrow> hval \<Rightarrow> nat \<Rightarrow> cell" where
  "rankedCell pa h i v r =
     Obj [(''rank'', HNum (Fin (real r))), (''productName'', fieldOf h v ''name''),
          (''score'', scoreValue pa i), (''features'', fieldOf h v ''features''),
          (''price'', fieldOf h v ''price'')]"

text \<open>A ranked entry for a product at catalog position \<open>i\<close> with rank \<open>r\<close>.\<close>

definition rankedEntry :: "jsnum list \<Rightarrow> product \<Rightarrow> nat \<Rightarrow> nat \<Rightarrow> rankedProduct" where
  "rankedEntry pa p i r =
     \<lparr> rank = r, productName = name p, score = scoreAt pa i, itemPrice = price p,
       itemFeatures = features p \<rparr>"

text \<open>The cell that the callback of lines 222 to 231 allocates for it.\<close>

definition explainedCell :: "runtime \<Rightarrow> customer \<Rightarrow> jsnum list \<Rightarrow> product \<Rightarrow> nat \<Rightarrow> nat \<Rightarrow> cell" where
  "explainedCell rt c pa p i r =
     Obj [(''rank'', HNum (Fin (real r))), (''productName'', HStr (name p)),
          (''score'', scoreValue pa i), (''price'', HNum (price p)),
          (''explanation'', HStr (generateAIExplanation rt c (rankedEntry pa p i r)))]"

text \<open>The positions of the ranking with their ranks.\<close>

definition ranked :: "jsnum list \<Rightarrow> nat \<Rightarrow> (nat \<times> nat) list" where
  "ranked pa N = map (\<lambda>(j, i). (i, j + 1)) (enumerate 0 (rankOrder pa N))"

section \<open>Properties\<close>

subsection \<open>Missing normalisation data\<close>

text \<open>
  C1 (as amended). When \<open>loadNormalizationData\<close> yields no data, \<open>getRecommendations\<close>
  returns the empty list to its caller, for every customer, every catalog and every
  state of the model; it does not throw.
\<close>

theorem missing_normalization_returns_empty:
  "getRecommendations rt model None customer products = Inr []"
  by (simp add: getRecommendations_def)

text \<open>
  C1 as stated fails: for a one-product catalog and a loaded model, the result without
  normalisation data is the empty list and not an error.
\<close>

theorem missing_normalization_not_error:
  "[fiber500] \<noteq> [] \<and>
   getRecommendations sampleRuntime (Some sampleModel) None sampleCustomer [fiber500] = Inr [] \<and>
   \<not> isl (getRecommendations sampleRuntime (Some sampleModel) None sampleCustomer [fiber500])"
  by (simp add: getRecommendations_def)

subsection \<open>Explanation templates\<close>

lemma lower_security_plus: "toLowerCase ''Wi-Fi Security Plus'' = ''wi-fi security plus''"
  by (simp add: toLowerCase_def charLower_def upperLetters_def lowerLetters_def)

text \<open>
  C8. For every customer, a product named "Wi-Fi Security Plus" gets the greeting
  followed by the "security plus" template, and never the plain "wi-fi security"
  template.
\<close>

theorem security_plus_template:
  "generateAIExplanation rt customer (product \<lparr> productName := ''Wi-Fi Security Plus'' \<rparr>) =
     ''Hi '' @ toString rt (jsOr (customerName customer) (Str ''Valued Customer''))
       @ '', based on your current setup, we recommend Wi-Fi Security Plus.''
       @ '' Enhancing your security with Wi-Fi Security Plus ensures comprehensive protection for all your devices, safeguarding against potential threats and vulnerabilities.''
   \<and>
   generateAIExplanation rt customer (product \<lparr> productName := ''Wi-Fi Security Plus'' \<rparr>) \<noteq>
     ''Hi '' @ toString rt (jsOr (customerName customer) (Str ''Valued Customer''))
       @ '', based on your current setup, we recommend Wi-Fi Security Plus.''
       @ '' To protect your network from malicious sites and potential cyber threats, Wi-Fi Security Plus offers advanced security features tailored to your needs.''"
  by (simp add: generateAIExplanation_def lower_security_plus Let_def)

subsection \<open>Parsing and the error monad\<close>











lemma parseFloatStr_1_0: "parseFloatStr ''1.0'' = Fin 1"
  by (simp add: parseFloatStr_def isWhite_def isDigit_def decTable_def hexTable_def
      digitsVal_def digitVal_def exponentPart_def)

lemma parseFloatStr_500: "parseFloatStr ''500'' = Fin 500"
  by (simp add: parseFloatStr_def isWhite_def isDigit_def decTable_def hexTable_def
      digitsVal_def digitVal_def exponentPart_def)


subsection \<open>Coverage size\<close>








subsection \<open>Network speed\<close>

lemma isDigitOrDot_set: "isDigitOrDot c \<longleftrightarrow> c \<in> set ''0123456789.''"
  by (auto simp: isDigitOrDot_def isDigit_def decTable_def)

lemma letter_not_digit: "isLetter c \<Longrightarrow> \<not> isDigitOrDot c"
  unfolding isDigitOrDot_set isLetter_def upperLetters_def lowerLetters_def
  by (elim disjE) auto

lemma takeWhile_all: "list_all P xs \<Longrightarrow> takeWhile P xs = xs"
  by (induction xs) auto

lemma speedMatch_form:
  assumes "num \<noteq> []" "list_all isDigitOrDot num" "unit \<noteq> []" "list_all isLetter unit"
  shows "speedMatch (num @ unit) = Some (num, unit)"
proof -
  obtain u us where u: "unit = u # us" using assms(3) by (cases unit) auto
  have nd: "\<not> isDigitOrDot u" using assms(4) u by (simp add: letter_not_digit)
  have t: "takeWhile isDigitOrDot (num @ unit) = num"
    using assms(2) nd u by (simp add: takeWhile_append list_all_iff takeWhile_all)
  have d: "dropWhile isDigitOrDot (num @ unit) = unit"
    using assms(2) nd u by (simp add: dropWhile_append list_all_iff)
  obtain c cs where c: "num @ unit = c # cs" using assms(1) by (cases "num @ unit") auto
  have t': "takeWhile isDigitOrDot (c # cs) = num" using t by (simp only: c)
  have d': "dropWhile isDigitOrDot (c # cs) = unit" using d by (simp only: c)
  have "speedMatch (c # cs) = Some (num, unit)"
    by (simp only: speedMatch.simps Let_def t' d') (simp add: assms takeWhile_all)
  then show ?thesis using c by simp
qed

lemma no_unit_after_run:
  "\<not> digitThenLetter (c # cs) \<Longrightarrow> isDigitOrDot c \<Longrightarrow>
     takeWhile isLetter (dropWhile isDigitOrDot cs) = []"
proof (induction cs arbitrary: c)
  case Nil
  then show ?case by simp
next
  case (Cons d ds)
  then show ?case by (auto simp: digitThenLetter_def)
qed

lemma speedMatch_None: "speedMatch s = None \<longleftrightarrow> \<not> digitThenLetter s"
proof (induction s)
  case Nil
  then show ?case by (simp add: digitThenLetter_def)
next
  case (Cons c cs)
  show ?case
  proof (cases "isDigitOrDot c")
    case True
    show ?thesis
    proof (cases "digitThenLetter (c # cs)")
      case False
      then have "takeWhile isLetter (dropWhile isDigitOrDot cs) = []"
        using True no_unit_after_run by blast
      moreover have "\<not> digitThenLetter cs"
        using False by (cases cs) (auto simp: digitThenLetter_def)
      ultimately show ?thesis using Cons True False by simp
    next
      case yes: True
      show ?thesis
      proof (cases "takeWhile isLetter (dropWhile isDigitOrDot cs) = []")
        case True
        then have "\<not> (cs \<noteq> [] \<and> isLetter (hd cs))"
          using letter_not_digit by (cases cs) auto
        then have "digitThenLetter cs"
          using yes by (cases cs) (auto simp: digitThenLetter_def)
        then show ?thesis using Cons True yes \<open>isDigitOrDot c\<close> by simp
      next
        case False
        then show ?thesis using yes \<open>isDigitOrDot c\<close> by simp
      qed
    qed
  next
    case False
    then have "digitThenLetter (c # cs) = digitThenLetter cs"
      by (cases cs) (auto simp: digitThenLetter_def)
    then show ?thesis using Cons False by simp
  qed
qed

text \<open>
  C3 (as amended). For a string made of a run of digits and dots followed by a run of
  letters, the unit "G" in either case gives the parsed number times 1000, and every
  other unit, "M" included, gives the parsed number unchanged. An absent or empty
  value, and every string in which no digit or dot is directly followed by a letter,
  gives 0.
\<close>

theorem network_speed_units:
  "(num \<noteq> [] \<and> list_all isDigitOrDot num \<and> unit \<noteq> [] \<and> list_all isLetter unit \<longrightarrow>
      networkSpeed rt (Str (num @ unit)) =
        Inr (if toUpperCase unit = ''G'' then numMul (parseFloatStr num) (Fin 1000)
             else parseFloatStr num)) \<and>
   networkSpeed rt Undefined = Inr (Fin 0) \<and>
   networkSpeed rt (Str []) = Inr (Fin 0) \<and>
   (\<not> digitThenLetter s \<longrightarrow> networkSpeed rt (Str s) = Inr (Fin 0))"
proof -
  have a: "networkSpeed rt (Str (num @ unit)) =
        Inr (if toUpperCase unit = ''G'' then numMul (parseFloatStr num) (Fin 1000)
             else parseFloatStr num)"
    if "num \<noteq> []" "list_all isDigitOrDot num" "unit \<noteq> []" "list_all isLetter unit"
    using speedMatch_form [OF that] that(1)
    by (simp add: networkSpeed_def parseFloat_def Let_def)
  have b: "networkSpeed rt (Str s) = Inr (Fin 0)" if "\<not> digitThenLetter s"
    using that speedMatch_None [of s] by (simp add: networkSpeed_def)
  show ?thesis using a b by (simp add: networkSpeed_def)
qed

theorem network_speed_units_witness:
  "networkSpeed sampleRuntime (Str ''1.0g'') = Inr (Fin 1000) \<and>
   \<not> digitThenLetter ''fast 5'' \<and> networkSpeed sampleRuntime (Str ''fast 5'') = Inr (Fin 0)"
proof -
  have f: "''1.0'' \<noteq> [] \<and> list_all isDigitOrDot ''1.0'' \<and> ''g'' \<noteq> [] \<and> list_all isLetter ''g''"
    by (simp add: isDigitOrDot_def isDigit_def decTable_def isLetter_def lowerLetters_def)
  have g: "toUpperCase ''g'' = ''G''"
    by (simp add: toUpperCase_def charUpper_def lowerLetters_def upperLetters_def)
  have n: "\<not> digitThenLetter ''fast 5''"
    by (simp add: digitThenLetter_def isDigitOrDot_def isDigit_def decTable_def isLetter_def
        lowerLetters_def upperLetters_def)
  show ?thesis
    using network_speed_units [of "''1.0''" "''g''" sampleRuntime "''fast 5''"] f g n
    by (simp add: parseFloatStr_1_0)
qed

text \<open>
  C3 as stated fails on unrecognised units: "500K" gives 500, not 0.
\<close>

theorem unknown_unit_keeps_value:
  "networkSpeed sampleRuntime (Str ''500K'') = Inr (Fin 500) \<and> Fin 500 \<noteq> Fin 0"
  by (simp add: networkSpeed_def isDigitOrDot_def isDigit_def decTable_def isLetter_def
      lowerLetters_def upperLetters_def toUpperCase_def charUpper_def parseFloat_def
      parseFloatStr_500)

subsection \<open>Normalisation\<close>













subsection \<open>Ranking\<close>

lemma mset_insertBy: "mset (insertBy cmp x ys) = add_mset x (mset ys)"
  by (induction ys) auto

lemma mset_jsSort: "mset (jsSort cmp xs) = mset xs"
  by (induction xs) (simp_all add: jsSort_def mset_insertBy)

lemma length_jsSort: "length (jsSort cmp xs) = length xs"
  using mset_jsSort [of cmp xs] by (metis size_mset)

lemma updateRanks_rank: "map rank (updateRanks ps) = [1..<Suc (length ps)]"
proof -
  have "map rank (updateRanks ps) = map (Suc \<circ> fst) (enumerate 0 ps)"
    by (simp add: updateRanks_def case_prod_unfold comp_def)
  also have "\<dots> = map Suc (map fst (enumerate 0 ps))"
    by (simp only: map_map)
  also have "\<dots> = [1..<Suc (length ps)]"
    by (simp add: map_Suc_upt)
  finally show ?thesis .
qed

lemma updateRanks_payload: "map payload (updateRanks ps) = map payload ps"
proof -
  have "map payload (updateRanks ps) = map (payload \<circ> snd) (enumerate 0 ps)"
    by (simp add: updateRanks_def case_prod_unfold comp_def payload_def)
  also have "\<dots> = map payload (map snd (enumerate 0 ps))"
    by (simp only: map_map)
  also have "\<dots> = map payload ps"
    by simp
  finally show ?thesis .
qed

lemma length_updateRanks: "length (updateRanks ps) = length ps"
  by (simp add: updateRanks_def)

lemma scoredProducts_payload:
  "map payload (scoredProducts products pa) =
     map (\<lambda>(i, p). (name p, scoreAt pa i, price p, features p)) (enumerate 0 products)"
  by (simp add: scoredProducts_def payload_def case_prod_unfold)

lemma length_scoredProducts: "length (scoredProducts products pa) = length products"
  by (simp add: scoredProducts_def)

lemma rankedProducts_payload:
  "mset (map payload (rankedProducts products pa)) =
     mset (map (\<lambda>(i, p). (name p, scoreAt pa i, price p, features p)) (enumerate 0 products))"
proof -
  have "mset (map payload (rankedProducts products pa)) =
          image_mset payload (mset (jsSort byScore (scoredProducts products pa)))"
    by (simp add: rankedProducts_def updateRanks_payload)
  also have "\<dots> = mset (map payload (scoredProducts products pa))"
    by (simp add: mset_jsSort)
  finally show ?thesis by (simp only: scoredProducts_payload)
qed

lemma withExplanation_fields:
  "rank (withExplanation rt c p) = rank p"
  "productName (withExplanation rt c p) = productName p"
  "score (withExplanation rt c p) = score p"
  "itemPrice (withExplanation rt c p) = itemPrice p"
  by (simp_all add: withExplanation_def)

text \<open>
  C5. For every catalog of N products and every prediction array, the ranked list of
  lines 205 to 219 and the list of lines 222 to 231 built from it have exactly N entries,
  the rank of the entry at position i (from 0) is i + 1, so the ranks are 1 to N in
  order, and the entries are the catalog items with their scores, each once: none is
  filtered out.
\<close>

theorem ranks_are_dense:
  "length (rankedProducts products pa) = length products \<and>
   map rank (rankedProducts products pa) = [1..<Suc (length products)] \<and>
   mset (map payload (rankedProducts products pa)) =
     mset (map (\<lambda>(i, p). (name p, scoreAt pa i, price p, features p)) (enumerate 0 products)) \<and>
   length (rankedProductsWithExplanations rt customer products pa) = length products \<and>
   map rank (rankedProductsWithExplanations rt customer products pa) = [1..<Suc (length products)] \<and>
   mset (map (\<lambda>r. (productName r, score r, itemPrice r))
             (rankedProductsWithExplanations rt customer products pa)) =
     mset (map (\<lambda>(i, p). (name p, scoreAt pa i, price p)) (enumerate 0 products))"
proof -
  let ?ranked = "rankedProducts products pa"
  have len: "length ?ranked = length products"
    by (simp add: rankedProducts_def length_updateRanks length_jsSort length_scoredProducts)
  have rk: "map rank ?ranked = [1..<Suc (length products)]"
    by (simp add: rankedProducts_def updateRanks_rank length_jsSort length_scoredProducts)
  have "mset (map (\<lambda>r. (productName r, score r, itemPrice r)) ?ranked) =
          image_mset (\<lambda>(n, s, p, f). (n, s, p)) (mset (map payload ?ranked))"
    by (simp add: payload_def image_mset.compositionality comp_def)
  also have "\<dots> = mset (map (\<lambda>(i, p). (name p, scoreAt pa i, price p)) (enumerate 0 products))"
    by (simp only: rankedProducts_payload)
       (simp add: image_mset.compositionality comp_def case_prod_unfold)
  finally have ms: "mset (map (\<lambda>r. (productName r, score r, itemPrice r)) ?ranked) =
      mset (map (\<lambda>(i, p). (name p, scoreAt pa i, price p)) (enumerate 0 products))" .
  have ex: "length (rankedProductsWithExplanations rt customer products pa) = length products \<and>
   map rank (rankedProductsWithExplanations rt customer products pa) = [1..<Suc (length products)] \<and>
   mset (map (\<lambda>r. (productName r, score r, itemPrice r))
             (rankedProductsWithExplanations rt customer products pa)) =
     mset (map (\<lambda>(i, p). (name p, scoreAt pa i, price p)) (enumerate 0 products))"
    using len rk ms
    by (simp add: rankedProductsWithExplanations_def comp_def withExplanation_fields)
  show ?thesis
    using len rk ex by (simp only: rankedProducts_payload)
qed










lemma set_jsSort: "set (jsSort cmp xs) = set xs"
  using mset_jsSort [of cmp xs] by (metis set_mset_mset)








lemma scoredProducts_defined:
  assumes "length products \<le> length pa"
  shows "\<forall>y\<in>set (scoredProducts products pa). score y \<noteq> None"
proof
  fix y assume "y \<in> set (scoredProducts products pa)"
  then obtain i p where ip: "(i, p) \<in> set (enumerate 0 products)" and y: "score y = scoreAt pa i"
    by (auto simp: scoredProducts_def)
  then have "i < length pa" using assms by (auto simp: in_set_enumerate_eq)
  then show "score y \<noteq> None" using y by (simp add: scoreAt_def)
qed

lemma updateRanks_score: "map score (updateRanks ps) = map score ps"
proof -
  have "map score (updateRanks ps) = map (\<lambda>t. fst (snd t)) (map payload (updateRanks ps))"
    by (simp add: payload_def comp_def)
  also have "\<dots> = map (\<lambda>t. fst (snd t)) (map payload ps)"
    by (simp only: updateRanks_payload)
  also have "\<dots> = map score ps"
    by (simp add: payload_def comp_def)
  finally show ?thesis .
qed

lemma ranked_scores_defined:
  assumes "length products \<le> length pa"
  shows "\<forall>r\<in>set (rankedProductsWithExplanations rt customer products pa). score r \<noteq> None"
proof -
  have "set (map score (rankedProducts products pa)) =
          score ` set (jsSort byScore (scoredProducts products pa))"
    by (simp only: rankedProducts_def updateRanks_score set_map)
  then have "set (map score (rankedProducts products pa)) = score ` set (scoredProducts products pa)"
    by (simp only: set_jsSort)
  then have "\<forall>s\<in>set (map score (rankedProducts products pa)). s \<noteq> None"
    using scoredProducts_defined [OF assms] by auto
  then show ?thesis
    by (auto simp: rankedProductsWithExplanations_def withExplanation_fields)
qed

text \<open>
  When the prediction has a score for every product, \<open>getRecommendations\<close> returns the
  ranked list.
\<close>

lemma getRecommendations_ranked:
  assumes "predictionArrayOf model nd
             (map (\<lambda>feature. jsOr (getProp (preprocessCustomer customer) feature) (Num (Fin 0)))
                  continuousFeatures)
             (map (\<lambda>feature. jsOr (getProp (preprocessCustomer customer) feature) (Num (Fin 0)))
                  categoricalFeatures) = Inr pa"
    and "length products \<le> length pa"
  shows "getRecommendations rt model (Some nd) customer products =
           Inr (rankedProductsWithExplanations rt (preprocessCustomer customer) products pa)"
proof -
  have "\<not> list_ex (\<lambda>prod. score prod = None)
          (take 3 (rankedProductsWithExplanations rt (preprocessCustomer customer) products pa))"
    using ranked_scores_defined [OF assms(2)]
    by (auto simp: list_ex_iff dest: in_set_takeD)
  then show ?thesis
    using assms(1) by (simp add: getRecommendations_def preprocessCustomers_def bindE_def)
qed

subsection \<open>Extraction\<close>














subsection \<open>The catalog is not mutated\<close>

lemma unchanged_refl: "n \<le> length h \<Longrightarrow> unchanged n h h"
  by (simp add: unchanged_def)

lemma unchanged_trans: "unchanged n h h1 \<Longrightarrow> unchanged n h1 h2 \<Longrightarrow> unchanged n h h2"
  by (simp add: unchanged_def)

lemma unchanged_append: "n \<le> length h \<Longrightarrow> unchanged n h (h @ cs)"
  by (simp add: unchanged_def)

lemma unchanged_update: "n \<le> length h \<Longrightarrow> n \<le> a \<Longrightarrow> unchanged n h (h[a := c])"
  by (simp add: unchanged_def)

lemma triple_bind:
  assumes "triple n P m Q" and "\<And>x. triple n (Q x) (f x) R"
  shows "triple n P (bindH m f) R"
  unfolding triple_def
proof (intro allI impI)
  fix h assume pre: "n \<le> length h \<and> P h"
  obtain r h1 where mh: "m h = (r, h1)" by (cases "m h")
  have u1: "unchanged n h h1" using assms(1) pre mh by (auto simp: triple_def)
  show "unchanged n h (snd (bindH m f h)) \<and>
        (\<forall>x. fst (bindH m f h) = Inr x \<longrightarrow> R x (snd (bindH m f h)))"
  proof (cases r)
    case (Inl e)
    then show ?thesis using mh u1 by (simp add: bindH_def)
  next
    case (Inr x)
    then have q: "Q x h1" using assms(1) pre mh by (auto simp: triple_def)
    have n1: "n \<le> length h1" using u1 by (simp add: unchanged_def)
    have "unchanged n h1 (snd (f x h1)) \<and> (\<forall>y. fst (f x h1) = Inr y \<longrightarrow> R y (snd (f x h1)))"
      using assms(2) [of x] q n1 by (simp add: triple_def)
    then show ?thesis using mh Inr u1 unchanged_trans by (auto simp: bindH_def)
  qed
qed

lemma triple_weaken:
  assumes "triple n P m Q" "\<And>h. P' h \<Longrightarrow> P h" "\<And>x h. Q x h \<Longrightarrow> Q' x h"
  shows "triple n P' m Q'"
  using assms unfolding triple_def by blast

lemma triple_ret: "(\<And>h. P h \<Longrightarrow> Q x h) \<Longrightarrow> triple n P (ret x) Q"
  by (simp add: triple_def ret_def unchanged_refl)

lemma triple_throw: "triple n P (throw e) Q"
  by (simp add: triple_def throw_def unchanged_refl)

lemma triple_reads: "reads m \<Longrightarrow> triple n P m (\<lambda>x. P)"
  by (simp add: triple_def reads_def unchanged_refl)

lemma reads_getField: "reads (getField v k)"
  by (auto simp: reads_def getField_def split: hval.splits cell.splits)

lemma reads_elements: "reads (elements v)"
  by (auto simp: reads_def elements_def split: hval.splits cell.splits)

lemma reads_ret: "reads (ret x)"
  by (simp add: reads_def ret_def)

lemma reads_throw: "reads (throw e)"
  by (simp add: reads_def throw_def)

lemma reads_bind: "reads m \<Longrightarrow> (\<And>x. reads (f x)) \<Longrightarrow> reads (bindH m f)"
  by (auto simp: reads_def bindH_def split: prod.splits sum.splits) (metis snd_conv)+

lemma reads_forEach: "(\<And>i x. reads (f i x)) \<Longrightarrow> reads (forEachH f i xs)"
  by (induction xs arbitrary: i) (simp_all add: reads_ret reads_bind)

lemma reads_explanation: "reads (explanationH rt customer product)"
  by (auto simp: reads_def explanationH_def split: option.splits)

lemma reads_logTop: "reads (logTop arr)"
  unfolding logTop_def
  by (intro reads_bind reads_elements reads_forEach reads_getField) (simp add: reads_throw reads_ret)

lemma triple_alloc: "triple n (\<lambda>h. True) (alloc c) (\<lambda>v h. freshRef n v)"
  by (simp add: triple_def alloc_def unchanged_append)

lemma triple_alloc_array:
  "list_all (freshRef n) vs \<Longrightarrow> triple n (\<lambda>h. True) (alloc (Arr vs)) (freshArray n)"
  by (simp add: triple_def alloc_def unchanged_append)

lemma triple_scoredObject:
  "triple n (\<lambda>h. True) (scoredObject pa index product) (\<lambda>v h. freshRef n v)"
  unfolding scoredObject_def
  by (intro triple_bind [OF triple_reads [OF reads_getField]] triple_alloc)

lemma triple_explainedObject:
  "triple n (\<lambda>h. True) (explainedObject rt customer index product) (\<lambda>v h. freshRef n v)"
  unfolding explainedObject_def
  by (intro triple_bind [OF triple_reads [OF reads_explanation]]
        triple_bind [OF triple_reads [OF reads_getField]] triple_alloc)

lemma triple_mapH:
  assumes "\<And>i x. triple n (\<lambda>h. True) (f i x) (\<lambda>v h. freshRef n v)"
  shows "triple n (\<lambda>h. True) (mapH f i xs) (\<lambda>vs h. list_all (freshRef n) vs)"
proof (induction xs arbitrary: i)
  case Nil
  show ?case by (simp add: triple_ret)
next
  case (Cons x xs)
  have "triple n (\<lambda>h. True) (bindH (f i x) (\<lambda>y. bindH (mapH f (Suc i) xs) (\<lambda>ys. ret (y # ys))))
          (\<lambda>vs h. list_all (freshRef n) vs)"
  proof (rule triple_bind [OF assms])
    fix y
    show "triple n (\<lambda>h. freshRef n y) (bindH (mapH f (Suc i) xs) (\<lambda>ys. ret (y # ys)))
            (\<lambda>vs h. list_all (freshRef n) vs)"
    proof (cases "freshRef n y")
      case True
      have "triple n (\<lambda>h. True) (bindH (mapH f (Suc i) xs) (\<lambda>ys. ret (y # ys)))
              (\<lambda>vs h. list_all (freshRef n) vs)"
        by (rule triple_bind [OF Cons]) (rule triple_ret, simp add: True)
      then show ?thesis by (rule triple_weaken) simp_all
    next
      case False
      then show ?thesis by (simp add: triple_def)
    qed
  qed
  then show ?case by simp
qed

lemma triple_arrayMap:
  assumes "\<And>i x. triple n (\<lambda>h. True) (f i x) (\<lambda>v h. freshRef n v)"
  shows "triple n (\<lambda>h. True) (arrayMap f arr) (freshArray n)"
  unfolding arrayMap_def
proof (rule triple_bind [OF triple_reads [OF reads_elements]])
  fix vs
  show "triple n (\<lambda>h. True) (bindH (mapH f 0 vs) (\<lambda>rs. alloc (Arr rs))) (freshArray n)"
  proof (rule triple_bind [OF triple_mapH [OF assms]])
    fix rs
    show "triple n (\<lambda>h. list_all (freshRef n) rs) (alloc (Arr rs)) (freshArray n)"
      by (simp add: triple_def alloc_def unchanged_append)
  qed
qed


lemma triple_sortByScore: "triple n (freshArray n arr) (sortByScore arr) (\<lambda>u. freshArray n arr)"
proof (cases arr)
  case (HRef a)
  show ?thesis
    unfolding triple_def
  proof (intro allI impI)
    fix h :: heap
    assume pre: "n \<le> length h \<and> freshArray n arr h"
    then obtain vs where a: "n \<le> a" "a < length h" "h ! a = Arr vs" "list_all (freshRef n) vs"
      using HRef by (auto split: cell.splits)
    let ?sorted = "jsSort (\<lambda>x y. numSub (scoreOf h y) (scoreOf h x)) vs"
    have run: "sortByScore arr h = (Inr (), h[a := Arr ?sorted])"
      using HRef a by (simp add: sortByScore_def bindH_def elements_def setElements_def)
    have "list_all (freshRef n) ?sorted"
      using a(4) by (simp add: list_all_iff set_jsSort)
    then show "unchanged n h (snd (sortByScore arr h)) \<and>
          (\<forall>x. fst (sortByScore arr h) = Inr x \<longrightarrow> freshArray n arr (snd (sortByScore arr h)))"
      using run HRef a pre by (simp add: unchanged_update)
  qed
qed (simp_all add: triple_def)

lemma triple_setField:
  "freshRef n v \<Longrightarrow> triple n (\<lambda>h. True) (setField v k x) (\<lambda>u h. True)"
  by (cases v) (auto simp: triple_def setField_def unchanged_update unchanged_refl split: cell.splits)

lemma triple_forEach_setField:
  "triple n (\<lambda>h. list_all (freshRef n) vs)
     (forEachH (\<lambda>index product. setField product k (g index)) i vs) (\<lambda>u h. True)"
proof (induction vs arbitrary: i)
  case Nil
  show ?case by (simp add: triple_ret)
next
  case (Cons v vs)
  show ?case
  proof (cases "list_all (freshRef n) (v # vs)")
    case True
    have "triple n (\<lambda>h. True)
            (bindH (setField v k (g i))
               (\<lambda>u. forEachH (\<lambda>index product. setField product k (g index)) (Suc i) vs))
            (\<lambda>u h. True)"
    proof (rule triple_bind [OF triple_setField])
      show "freshRef n v" using True by simp
    next
      fix u :: unit
      show "triple n (\<lambda>h. True)
              (forEachH (\<lambda>index product. setField product k (g index)) (Suc i) vs) (\<lambda>u h. True)"
        using Cons [of "Suc i"] True by (simp add: triple_def)
    qed
    then show ?thesis by (simp add: triple_def)
  next
    case False
    then show ?thesis by (auto simp: triple_def)
  qed
qed

lemma triple_elements_fresh:
  "triple n (freshArray n arr) (elements arr) (\<lambda>vs h. list_all (freshRef n) vs)"
  by (cases arr) (auto simp: triple_def elements_def unchanged_refl split: cell.splits)

lemma triple_updateRanksH: "triple n (freshArray n arr) (updateRanksH arr) (\<lambda>u h. True)"
  unfolding updateRanksH_def
  by (rule triple_bind [OF triple_elements_fresh]) (rule triple_forEach_setField)

lemma triple_getRecommendationsH:
  "triple n (\<lambda>h. True) (getRecommendationsH rt model normData customer products) (freshArray n)"
proof (cases normData)
  case None
  then show ?thesis
    by (simp add: getRecommendationsH_def triple_alloc_array)
next
  case (Some nd)
  let ?pre = "preprocessCustomers [customer] ! 0"
  let ?pa = "predictionArrayOf model nd
       (map (\<lambda>feature. jsOr (getProp ?pre feature) (Num (Fin 0))) continuousFeatures)
       (map (\<lambda>feature. jsOr (getProp ?pre feature) (Num (Fin 0))) categoricalFeatures)"
  show ?thesis
  proof (cases ?pa)
    case (Inl e)
    then show ?thesis
      using Some by (simp add: getRecommendationsH_def triple_throw)
  next
    case (Inr pa)
    have "triple n (\<lambda>h. True)
            (bindH (arrayMap (scoredObject pa) products) (\<lambda>rankedProducts.
             bindH (sortByScore rankedProducts) (\<lambda>u.
             bindH (updateRanksH rankedProducts) (\<lambda>u.
             bindH (arrayMap (explainedObject rt ?pre) rankedProducts) (\<lambda>result.
             bindH (logTop result) (\<lambda>u. ret result))))))
            (freshArray n)"
    proof (rule triple_bind [OF triple_arrayMap [OF triple_scoredObject]])
      fix ranked
      show "triple n (freshArray n ranked)
              (bindH (sortByScore ranked) (\<lambda>u.
               bindH (updateRanksH ranked) (\<lambda>u.
               bindH (arrayMap (explainedObject rt ?pre) ranked) (\<lambda>result.
               bindH (logTop result) (\<lambda>u. ret result)))))
              (freshArray n)"
      proof (rule triple_bind [OF triple_sortByScore], rule triple_bind [OF triple_updateRanksH],
             rule triple_bind [OF triple_arrayMap [OF triple_explainedObject]])
        fix result
        show "triple n (freshArray n result) (bindH (logTop result) (\<lambda>u. ret result)) (freshArray n)"
          by (rule triple_bind [OF triple_reads [OF reads_logTop]]) (rule triple_ret)
      qed
    qed
    then show ?thesis
      using Some Inr by (simp add: getRecommendationsH_def)
  qed
qed



lemma getField_later:
  assumes "unchanged (length h) h h'" "fst (getField v k h) = Inr x"
  shows "fst (getField v k h') = Inr x"
proof (cases v)
  case (HRef a)
  then have a: "a < length h" using assms(2) by (auto simp: getField_def split: if_splits)
  then have "h' ! a = h ! a" "a < length h'"
    using assms(1) by (auto simp: unchanged_def) (metis nth_take)
  then show ?thesis using HRef a assms(2) by (simp add: getField_def split: cell.splits)
qed (use assms in \<open>simp_all add: getField_def\<close>)

lemma elements_later:
  assumes "unchanged (length h) h h'" "fst (elements v h) = Inr x"
  shows "fst (elements v h') = Inr x"
proof (cases v)
  case (HRef a)
  then have a: "a < length h" using assms(2) by (auto simp: elements_def split: if_splits)
  then have "h' ! a = h ! a" "a < length h'"
    using assms(1) by (auto simp: unchanged_def) (metis nth_take)
  then show ?thesis using HRef a assms(2) by (simp add: elements_def split: cell.splits)
qed (use assms in \<open>simp_all add: elements_def\<close>)

lemma features_later:
  assumes "unchanged (length h) h h'" "fst (bindH (getField v ''features'') elements h) = Inr x"
  shows "fst (bindH (getField v ''features'') elements h') = Inr x"
proof -
  have s: "snd (getField v ''features'' g) = g" for g
    using reads_getField by (simp add: reads_def)
  obtain f where f: "fst (getField v ''features'' h) = Inr f" and e: "fst (elements f h) = Inr x"
    using assms(2) s [of h]
    by (cases "getField v ''features'' h"; cases "fst (getField v ''features'' h)")
       (auto simp: bindH_def)
  have f': "fst (getField v ''features'' h') = Inr f"
    using getField_later [OF assms(1) f] .
  have e': "fst (elements f h') = Inr x"
    using elements_later [OF assms(1) e] .
  show ?thesis
    using f' e' s [of h'] by (cases "getField v ''features'' h'") (auto simp: bindH_def)
qed

lemma productAt_later:
  assumes "unchanged (length h) h h'" "productAt h v = Some p"
  shows "productAt h' v = Some p"
proof -
  obtain n pr fs where
    1: "fst (getField v ''name'' h) = Inr (HStr n)" and
    2: "fst (getField v ''price'' h) = Inr (HNum pr)" and
    3: "fst (bindH (getField v ''features'') elements h) = Inr fs" and
    4: "map_option (\<lambda>strs. \<lparr> name = n, features = strs, price = pr \<rparr>) (theStrings fs) = Some p"
    using assms(2)
    by (auto simp: productAt_def split: sum.splits hval.splits)
  show ?thesis
    using getField_later [OF assms(1) 1] getField_later [OF assms(1) 2]
      features_later [OF assms(1) 3] 4
    by (simp add: productAt_def)
qed

lemma those_later:
  assumes "\<And>v p. f v = Some p \<Longrightarrow> g v = Some p" "those (map f vs) = Some ps"
  shows "those (map g vs) = Some ps"
  using assms(2)
proof (induction vs arbitrary: ps)
  case Nil
  then show ?case by simp
next
  case (Cons v vs)
  then show ?case using assms(1) by (auto split: option.splits)
qed

lemma catalogAt_later:
  assumes "unchanged (length h) h h'" "catalogAt h v = Some ps"
  shows "catalogAt h' v = Some ps"
proof -
  obtain vs where e: "fst (elements v h) = Inr vs" and t: "those (map (productAt h) vs) = Some ps"
    using assms(2) by (auto simp: catalogAt_def split: sum.splits)
  have "those (map (productAt h') vs) = Some ps"
    using productAt_later [OF assms(1)] t by (rule those_later)
  then show ?thesis
    using elements_later [OF assms(1) e] by (simp add: catalogAt_def)
qed

text \<open>
  C10. Whatever the customer, the model, the normalisation data and the store, and
  whether the call returns or throws, every cell that existed before a call of
  \<open>getRecommendations\<close> is the same after it: the catalog array, every product object
  and every features array are unchanged, so the catalog the array denotes is the same.
  The array returned and the entries in it are cells allocated during the call.
\<close>

theorem catalog_not_mutated:
  assumes "getRecommendationsH rt model normData customer products h = (r, h')"
  shows "length h \<le> length h' \<and> take (length h) h' = h \<and>
         (\<forall>a<length h. h' ! a = h ! a) \<and>
         (\<forall>ps. catalogAt h products = Some ps \<longrightarrow> catalogAt h' products = Some ps) \<and>
         (\<forall>v. r = Inr v \<longrightarrow> freshArray (length h) v h')"
proof -
  have u: "unchanged (length h) h h'" and f: "\<forall>v. r = Inr v \<longrightarrow> freshArray (length h) v h'"
    using triple_getRecommendationsH [of "length h" rt model normData customer products] assms
    by (auto simp: triple_def)
  have t: "take (length h) h' = h" using u by (simp add: unchanged_def)
  have "\<forall>a<length h. h' ! a = h ! a"
    using t by (metis nth_take)
  then show ?thesis using u f t catalogAt_later [OF u] by (simp add: unchanged_def)
qed

text \<open>
  On the sample store the call returns the array at address 10, and the list it denotes
  is the list the function on values computes; with a prediction that is one score
  short, both throw.
\<close>

lemma sample_run:
  "fst (getRecommendationsH sampleRuntime (Some twoScores) (Some sampleData) sampleCustomer
          (HRef 4) sampleHeap) = Inr (HRef 10)"
  by code_simp

lemma sample_catalog: "catalogAt sampleHeap (HRef 4) = Some [fiber500, identityProtection]"
  by code_simp

lemma sample_agrees:
  "map_option Inr
     (recommendationsAt
        (snd (getRecommendationsH sampleRuntime (Some twoScores) (Some sampleData) sampleCustomer
                (HRef 4) sampleHeap)) (HRef 10)) =
   Some (getRecommendations sampleRuntime (Some twoScores) (Some sampleData) sampleCustomer
           [fiber500, identityProtection])"
  by code_simp

lemma sample_agrees_on_throw:
  "fst (getRecommendationsH sampleRuntime (Some sampleModel) (Some sampleData) sampleCustomer
          (HRef 4) sampleHeap) = Inl TypeError \<and>
   getRecommendations sampleRuntime (Some sampleModel) (Some sampleData) sampleCustomer
     [fiber500, identityProtection] = Inl TypeError"
  by code_simp

theorem catalog_not_mutated_witness:
  "fst (getRecommendationsH sampleRuntime (Some twoScores) (Some sampleData) sampleCustomer
          (HRef 4) sampleHeap) = Inr (HRef 10) \<and>
   take (length sampleHeap)
     (snd (getRecommendationsH sampleRuntime (Some twoScores) (Some sampleData) sampleCustomer
             (HRef 4) sampleHeap)) = sampleHeap \<and>
   catalogAt
     (snd (getRecommendationsH sampleRuntime (Some twoScores) (Some sampleData) sampleCustomer
             (HRef 4) sampleHeap)) (HRef 4) = Some [fiber500, identityProtection] \<and>
   freshArray (length sampleHeap) (HRef 10)
     (snd (getRecommendationsH sampleRuntime (Some twoScores) (Some sampleData) sampleCustomer
             (HRef 4) sampleHeap))"
  using catalog_not_mutated [OF prod.collapse [symmetric],
      where rt = sampleRuntime and model = "Some twoScores" and normData = "Some sampleData"
        and customer = sampleCustomer and products = "HRef 4" and h = sampleHeap]
    sample_run sample_catalog
  by simp

subsection \<open>The store and the values agree\<close>

lemma getField_run:
  assumes "unchanged (length h) h h1" "fst (getField v k h) = Inr x"
  shows "getField v k h1 = (Inr x, h1)"
  using getField_later [OF assms] reads_getField [of v k]
  by (metis prod.collapse reads_def)

lemma elements_run:
  assumes "unchanged (length h) h h1" "fst (elements v h) = Inr x"
  shows "elements v h1 = (Inr x, h1)"
  using elements_later [OF assms] reads_elements [of v]
  by (metis prod.collapse reads_def)

lemma productAt_fields:
  assumes "productAt h v = Some p"
  shows "fst (getField v ''name'' h) = Inr (HStr (name p))"
    and "fst (getField v ''price'' h) = Inr (HNum (price p))"
    and "\<exists>f fs. fst (getField v ''features'' h) = Inr f \<and> fst (elements f h) = Inr fs \<and>
           theStrings fs = Some (features p)"
proof -
  obtain n pr fs where
    1: "fst (getField v ''name'' h) = Inr (HStr n)" and
    2: "fst (getField v ''price'' h) = Inr (HNum pr)" and
    3: "fst (bindH (getField v ''features'') elements h) = Inr fs" and
    4: "map_option (\<lambda>strs. \<lparr> name = n, features = strs, price = pr \<rparr>) (theStrings fs) = Some p"
    using assms by (auto simp: productAt_def split: sum.splits hval.splits)
  obtain strs where strs: "theStrings fs = Some strs" and p: "p = \<lparr> name = n, features = strs, price = pr \<rparr>"
    using 4 by auto
  show "fst (getField v ''name'' h) = Inr (HStr (name p))" using 1 p by simp
  show "fst (getField v ''price'' h) = Inr (HNum (price p))" using 2 p by simp
  have s: "snd (getField v ''features'' h) = h"
    using reads_getField by (simp add: reads_def)
  obtain f where f: "fst (getField v ''features'' h) = Inr f" and e: "fst (elements f h) = Inr fs"
    using 3 s
    by (cases "getField v ''features'' h"; cases "fst (getField v ''features'' h)")
       (auto simp: bindH_def)
  show "\<exists>f fs. fst (getField v ''features'' h) = Inr f \<and> fst (elements f h) = Inr fs \<and>
           theStrings fs = Some (features p)"
    using f e strs p by auto
qed

lemma scoredObject_run:
  assumes "unchanged (length h) h h1" "productAt h v = Some p"
  shows "scoredObject pa i v h1 = (Inr (HRef (length h1)), h1 @ [scoredCell pa h i v])"
proof -
  note pf = productAt_fields [OF assms(2)]
  obtain f where f: "fst (getField v ''features'' h) = Inr f" using pf(3) by blast
  have n: "getField v ''name'' h1 = (Inr (HStr (name p)), h1)"
    using getField_run [OF assms(1) pf(1)] .
  have pr: "getField v ''price'' h1 = (Inr (HNum (price p)), h1)"
    using getField_run [OF assms(1) pf(2)] .
  have fe: "getField v ''features'' h1 = (Inr f, h1)"
    using getField_run [OF assms(1) f] .
  show ?thesis
    by (simp add: scoredObject_def bindH_def n pr fe alloc_def scoredCell_def fieldOf_def pf(1,2) f)
qed

lemma mapH_scored_run:
  assumes "list_all2 (\<lambda>v p. productAt h v = Some p) vs ps" "unchanged (length h) h h1"
  shows "mapH (scoredObject pa) i vs h1 =
           (Inr (map HRef [length h1..<length h1 + length vs]),
            h1 @ map (\<lambda>(j, v). scoredCell pa h j v) (enumerate i vs))"
  using assms
proof (induction vs ps arbitrary: i h1 rule: list_all2_induct)
  case Nil
  then show ?case by (simp add: ret_def)
next
  case (Cons v vs p ps)
  have u: "unchanged (length h) h (h1 @ [scoredCell pa h i v])"
    using Cons.prems by (simp add: unchanged_def)
  have step: "scoredObject pa i v h1 = (Inr (HRef (length h1)), h1 @ [scoredCell pa h i v])"
    using scoredObject_run [OF Cons.prems Cons.hyps(1)] .
  have rest: "mapH (scoredObject pa) (Suc i) vs (h1 @ [scoredCell pa h i v]) =
           (Inr (map HRef [Suc (length h1)..<Suc (length h1) + length vs]),
            (h1 @ [scoredCell pa h i v]) @ map (\<lambda>(j, v). scoredCell pa h j v) (enumerate (Suc i) vs))"
    using Cons.IH [OF u, of "Suc i"] by simp
  have "[length h1..<length h1 + Suc (length vs)] =
          length h1 # [Suc (length h1)..<Suc (length h1) + length vs]"
    by (subst upt_rec) simp
  then show ?case
    by (simp add: bindH_def step rest ret_def del: upt_Suc)
qed

lemma insertBy_map:
  "insertBy c (f x) (map f ys) = map f (insertBy (\<lambda>a b. c (f a) (f b)) x ys)"
  by (induction ys) simp_all

lemma jsSort_map: "jsSort c (map f xs) = map f (jsSort (\<lambda>a b. c (f a) (f b)) xs)"
  by (induction xs) (simp_all add: jsSort_def insertBy_map)

lemma insertBy_cong:
  "(\<forall>y\<in>set ys. c x y = c' x y) \<Longrightarrow> insertBy c x ys = insertBy c' x ys"
  by (induction ys) simp_all

lemma jsSort_cong:
  "(\<forall>a\<in>set xs. \<forall>b\<in>set xs. c a b = c' a b) \<Longrightarrow> jsSort c xs = jsSort c' xs"
proof (induction xs)
  case Nil
  show ?case by (simp add: jsSort_def)
next
  case (Cons x xs)
  have ih: "jsSort c xs = jsSort c' xs" using Cons by simp
  have "insertBy c x (jsSort c' xs) = insertBy c' x (jsSort c' xs)"
    using Cons.prems by (intro insertBy_cong) (simp add: set_jsSort)
  then show ?case using ih by (simp add: jsSort_def)
qed

lemma enumerate_nth: "enumerate 0 xs = map (\<lambda>i. (i, xs ! i)) [0..<length xs]"
proof (rule nth_equalityI)
  show "length (enumerate 0 xs) = length (map (\<lambda>i. (i, xs ! i)) [0..<length xs])"
    by simp
next
  fix i assume "i < length (enumerate 0 xs)"
  then show "enumerate 0 xs ! i = map (\<lambda>i. (i, xs ! i)) [0..<length xs] ! i"
    by (simp add: nth_enumerate_eq)
qed

lemma scoredProducts_entries:
  "scoredProducts ps pa = map (entryAt ps pa) [0..<length ps]"
  by (simp add: scoredProducts_def enumerate_nth entryAt_def comp_def del: upt_Suc)

lemma sorted_entries:
  "jsSort byScore (scoredProducts ps pa) = map (entryAt ps pa) (rankOrder pa (length ps))"
  by (simp add: scoredProducts_entries jsSort_map rankOrder_def byScore_def entryAt_def del: upt_Suc)

lemma set_rankOrder: "set (rankOrder pa N) = {0..<N}"
  by (simp add: rankOrder_def set_jsSort)

lemma distinct_rankOrder: "distinct (rankOrder pa N)"
proof -
  have "mset (rankOrder pa N) = mset [0..<N]"
    by (simp add: rankOrder_def mset_jsSort)
  then show ?thesis by (metis distinct_upt mset_eq_imp_distinct_iff)
qed

lemma length_rankOrder: "length (rankOrder pa N) = N"
  by (simp add: rankOrder_def length_jsSort)

lemma scoreOf_scoredCell:
  assumes "a < length g" "g ! a = scoredCell pa h i v"
  shows "scoreOf g (HRef a) = scoreNumber (scoreAt pa i)"
  using assms
  by (simp add: scoreOf_def getField_def scoredCell_def scoreValue_def scoreNumber_def
      split: option.splits)

lemma sortByScore_run:
  assumes cells: "\<forall>i<N. n + i < length g \<and> g ! (n + i) = scoredCell pa h i (vs ! i)"
    and arr: "n + N < length g" "g ! (n + N) = Arr (map (\<lambda>i. HRef (n + i)) [0..<N])"
  shows "sortByScore (HRef (n + N)) g =
           (Inr (), g[n + N := Arr (map (\<lambda>i. HRef (n + i)) (rankOrder pa N))])"
proof -
  have "jsSort (\<lambda>a b. numSub (scoreOf g b) (scoreOf g a)) (map (\<lambda>i. HRef (n + i)) [0..<N]) =
          map (\<lambda>i. HRef (n + i))
            (jsSort (\<lambda>i j. numSub (scoreOf g (HRef (n + j))) (scoreOf g (HRef (n + i)))) [0..<N])"
    by (simp only: jsSort_map)
  also have "jsSort (\<lambda>i j. numSub (scoreOf g (HRef (n + j))) (scoreOf g (HRef (n + i)))) [0..<N] =
          rankOrder pa N"
    unfolding rankOrder_def
    using cells by (intro jsSort_cong) (simp add: scoreOf_scoredCell)
  finally show ?thesis
    using arr by (simp add: sortByScore_def bindH_def elements_def setElements_def)
qed

lemma setRank_run:
  assumes "a < length g" "g ! a = scoredCell pa h i v"
  shows "setField (HRef a) ''rank'' (HNum (Fin (real r))) g = (Inr (), g[a := rankedCell pa h i v r])"
  using assms by (simp add: setField_def scoredCell_def rankedCell_def)

lemma forEach_rank_run:
  assumes "distinct js"
    and "\<forall>i\<in>set js. n + i < length g \<and> g ! (n + i) = scoredCell pa h i (vs ! i)"
  shows "\<exists>g'. forEachH (\<lambda>index product. setField product ''rank'' (HNum (Fin (real (index + 1)))))
                  j0 (map (\<lambda>i. HRef (n + i)) js) g = (Inr (), g') \<and>
              length g' = length g \<and>
              (\<forall>a. a \<notin> (\<lambda>i. n + i) ` set js \<longrightarrow> g' ! a = g ! a) \<and>
              (\<forall>k<length js. g' ! (n + js ! k) = rankedCell pa h (js ! k) (vs ! (js ! k)) (j0 + k + 1))"
  using assms
proof (induction js arbitrary: j0 g)
  case Nil
  then show ?case by (simp add: ret_def)
next
  case (Cons i js)
  let ?g1 = "g[n + i := rankedCell pa h i (vs ! i) (j0 + 1)]"
  have here: "n + i < length g" "g ! (n + i) = scoredCell pa h i (vs ! i)"
    using Cons.prems(2) by simp_all
  have step: "setField (HRef (n + i)) ''rank'' (HNum (Fin (real (j0 + 1)))) g = (Inr (), ?g1)"
    using setRank_run [OF here] .
  have d: "distinct js" and ni: "i \<notin> set js" using Cons.prems(1) by simp_all
  have rest: "\<forall>i'\<in>set js. n + i' < length ?g1 \<and> ?g1 ! (n + i') = scoredCell pa h i' (vs ! i')"
  proof
    fix i' assume i': "i' \<in> set js"
    then have "i' \<noteq> i" using ni by auto
    then have "?g1 ! (n + i') = g ! (n + i')" by simp
    then show "n + i' < length ?g1 \<and> ?g1 ! (n + i') = scoredCell pa h i' (vs ! i')"
      using Cons.prems(2) i' by simp
  qed
  obtain g' where
    run: "forEachH (\<lambda>index product. setField product ''rank'' (HNum (Fin (real (index + 1)))))
            (Suc j0) (map (\<lambda>i. HRef (n + i)) js) ?g1 = (Inr (), g')" and
    len: "length g' = length ?g1" and
    other: "\<forall>a. a \<notin> (\<lambda>i. n + i) ` set js \<longrightarrow> g' ! a = ?g1 ! a" and
    these: "\<forall>k<length js. g' ! (n + js ! k) = rankedCell pa h (js ! k) (vs ! (js ! k)) (Suc j0 + k + 1)"
    using Cons.IH [OF d rest, of "Suc j0"] by blast
  have run': "forEachH (\<lambda>index product. setField product ''rank'' (HNum (Fin (real (index + 1)))))
            j0 (map (\<lambda>i. HRef (n + i)) (i # js)) g = (Inr (), g')"
    using step run by (simp add: bindH_def)
  have "n + i \<notin> (\<lambda>i. n + i) ` set js" using ni by auto
  then have "g' ! (n + i) = ?g1 ! (n + i)" using other by blast
  then have first: "g' ! (n + i) = rankedCell pa h i (vs ! i) (j0 + 1)"
    using here(1) by simp
  have all: "\<forall>k<length (i # js).
      g' ! (n + (i # js) ! k) = rankedCell pa h ((i # js) ! k) (vs ! ((i # js) ! k)) (j0 + k + 1)"
  proof (intro allI impI)
    fix k assume k: "k < length (i # js)"
    show "g' ! (n + (i # js) ! k) = rankedCell pa h ((i # js) ! k) (vs ! ((i # js) ! k)) (j0 + k + 1)"
    proof (cases k)
      case 0
      then show ?thesis using first by simp
    next
      case (Suc k')
      then show ?thesis using these k by simp
    qed
  qed
  have others: "\<forall>a. a \<notin> (\<lambda>i. n + i) ` set (i # js) \<longrightarrow> g' ! a = g ! a"
  proof (intro allI impI)
    fix a assume a: "a \<notin> (\<lambda>i. n + i) ` set (i # js)"
    then have "a \<noteq> n + i" "a \<notin> (\<lambda>i. n + i) ` set js" by auto
    then show "g' ! a = g ! a" using other by simp
  qed
  show ?case using run' len all others by auto
qed

lemma fieldOf_product:
  assumes "productAt h v = Some p"
  shows "fieldOf h v ''name'' = HStr (name p)" "fieldOf h v ''price'' = HNum (price p)"
  using productAt_fields(1,2) [OF assms] by (simp_all add: fieldOf_def)

lemma rankedCell_fields:
  assumes "a < length g" "g ! a = rankedCell pa h i v r"
  shows "getField (HRef a) ''rank'' g = (Inr (HNum (Fin (real r))), g)"
    and "getField (HRef a) ''productName'' g = (Inr (fieldOf h v ''name''), g)"
    and "getField (HRef a) ''score'' g = (Inr (scoreValue pa i), g)"
    and "getField (HRef a) ''price'' g = (Inr (fieldOf h v ''price''), g)"
    and "getField (HRef a) ''features'' g = (Inr (fieldOf h v ''features''), g)"
  using assms by (simp_all add: getField_def rankedCell_def)

lemma features_run:
  assumes "unchanged (length h) h g" "productAt h v = Some p"
  shows "\<exists>fs. elements (fieldOf h v ''features'') g = (Inr fs, g) \<and> theStrings fs = Some (features p)"
proof -
  obtain f fs where f: "fst (getField v ''features'' h) = Inr f"
    and e: "fst (elements f h) = Inr fs" and t: "theStrings fs = Some (features p)"
    using productAt_fields(3) [OF assms(2)] by blast
  have "fieldOf h v ''features'' = f" using f by (simp add: fieldOf_def)
  then show ?thesis using elements_run [OF assms(1) e] t by simp
qed

lemma rankedAt_run:
  assumes "unchanged (length h) h g" "productAt h v = Some p"
    and "a < length g" "g ! a = rankedCell pa h i v r"
  shows "rankedAt g (HRef a) = Some (rankedEntry pa p i r)"
proof -
  note rf = rankedCell_fields [OF assms(3,4)]
  note fp = fieldOf_product [OF assms(2)]
  obtain fs where fs: "elements (fieldOf h v ''features'') g = (Inr fs, g)"
    and t: "theStrings fs = Some (features p)"
    using features_run [OF assms(1,2)] by blast
  have b: "fst (bindH (getField (HRef a) ''features'') elements g) = Inr fs"
    by (simp add: bindH_def rf(5) fs)
  show ?thesis
    by (cases "scoreAt pa i")
       (simp_all add: rankedAt_def rf(1-4) fp b t scoreValue_def rankedEntry_def)
qed

lemma explainedObject_run:
  assumes "unchanged (length h) h g" "productAt h v = Some p"
    and "a < length g" "g ! a = rankedCell pa h i v r"
  shows "explainedObject rt c j (HRef a) g =
           (Inr (HRef (length g)), g @ [explainedCell rt c pa p i r])"
proof -
  note rf = rankedCell_fields [OF assms(3,4)]
  note fp = fieldOf_product [OF assms(2)]
  have e: "explanationH rt c (HRef a) g = (Inr (generateAIExplanation rt c (rankedEntry pa p i r)), g)"
    by (simp add: explanationH_def rankedAt_run [OF assms])
  show ?thesis
    by (simp add: explainedObject_def bindH_def e rf(1-4) fp alloc_def explainedCell_def)
qed

lemma unchanged_prefix:
  assumes "unchanged (length h) h g0" "length h \<le> length g0" "unchanged (length g0) g0 g"
  shows "unchanged (length h) h g"
proof -
  have g0: "take (length g0) g = g0" and l: "length g0 \<le> length g"
    using assms(3) by (simp_all add: unchanged_def)
  have "take (length h) g = take (length h) (take (length g0) g)"
    using assms(2) by (simp add: min.absorb1)
  also have "\<dots> = take (length h) g0"
    by (simp only: g0)
  also have "\<dots> = take (length h) h"
    using assms(1) by (simp add: unchanged_def)
  finally show ?thesis using assms(2) l by (simp add: unchanged_def)
qed

lemma mapH_explained_run:
  assumes "unchanged (length h) h g0" "length h \<le> length g0" "unchanged (length g0) g0 g"
    and "\<forall>(i, r)\<in>set irs. productAt h (vs ! i) = Some (ps ! i) \<and> n + i < length g0 \<and>
            g0 ! (n + i) = rankedCell pa h i (vs ! i) r"
  shows "mapH (explainedObject rt c) j0 (map (\<lambda>(i, r). HRef (n + i)) irs) g =
           (Inr (map HRef [length g..<length g + length irs]),
            g @ map (\<lambda>(i, r). explainedCell rt c pa (ps ! i) i r) irs)"
  using assms(3,4)
proof (induction irs arbitrary: j0 g)
  case Nil
  then show ?case by (simp add: ret_def)
next
  case (Cons ir irs)
  obtain i r where ir: "ir = (i, r)" by (cases ir)
  have p: "productAt h (vs ! i) = Some (ps ! i)" and a: "n + i < length g0"
    and cell: "g0 ! (n + i) = rankedCell pa h i (vs ! i) r"
    using Cons.prems(2) ir by auto
  have ug: "unchanged (length h) h g"
    using unchanged_prefix [OF assms(1,2) Cons.prems(1)] .
  have "take (length g0) g = g0" "length g0 \<le> length g"
    using Cons.prems(1) by (simp_all add: unchanged_def)
  then have ag: "n + i < length g" "g ! (n + i) = rankedCell pa h i (vs ! i) r"
    using a cell by (auto, metis nth_take)
  have step: "explainedObject rt c j0 (HRef (n + i)) g =
           (Inr (HRef (length g)), g @ [explainedCell rt c pa (ps ! i) i r])"
    using explainedObject_run [OF ug p ag] .
  have u': "unchanged (length g0) g0 (g @ [explainedCell rt c pa (ps ! i) i r])"
    using Cons.prems(1) by (simp add: unchanged_def)
  have rest: "mapH (explainedObject rt c) (Suc j0) (map (\<lambda>(i, r). HRef (n + i)) irs)
                (g @ [explainedCell rt c pa (ps ! i) i r]) =
           (Inr (map HRef [Suc (length g)..<Suc (length g) + length irs]),
            (g @ [explainedCell rt c pa (ps ! i) i r]) @
              map (\<lambda>(i, r). explainedCell rt c pa (ps ! i) i r) irs)"
    using Cons.IH [OF u', of "Suc j0"] Cons.prems(2) by simp
  have "[length g..<length g + Suc (length irs)] =
          length g # [Suc (length g)..<Suc (length g) + length irs]"
    by (subst upt_rec) simp
  then show ?case
    by (simp add: bindH_def ir step rest ret_def del: upt_Suc)
qed

lemma those_map_Some:
  "those (map f vs) = Some ps \<Longrightarrow> list_all2 (\<lambda>v p. f v = Some p) vs ps"
proof (induction vs arbitrary: ps)
  case Nil
  then show ?case by simp
next
  case (Cons v vs)
  then show ?case by (auto split: option.splits)
qed

lemma list_all2_those:
  "list_all2 (\<lambda>v p. f v = Some p) vs ps \<Longrightarrow> those (map f vs) = Some ps"
  by (induction vs ps rule: list_all2_induct) simp_all

lemma catalogAt_elements:
  assumes "catalogAt h products = Some ps"
  shows "\<exists>vs. elements products h = (Inr vs, h) \<and> list_all2 (\<lambda>v p. productAt h v = Some p) vs ps"
proof -
  obtain vs where e: "fst (elements products h) = Inr vs"
    and t: "those (map (productAt h) vs) = Some ps"
    using assms by (auto simp: catalogAt_def split: sum.splits)
  have "elements products h = (Inr vs, h)"
    using e reads_elements [of products] by (metis prod.collapse reads_def)
  then show ?thesis using those_map_Some [OF t] by blast
qed

lemma recommendationAt_cell:
  assumes "a < length g" "g ! a = explainedCell rt c pa p i r"
  shows "recommendationAt g (HRef a) = Some (withExplanation rt c (rankedEntry pa p i r))"
  using assms
  by (cases "scoreAt pa i")
     (simp_all add: recommendationAt_def getField_def explainedCell_def scoreValue_def
        withExplanation_def rankedEntry_def)

lemma recommendation_score:
  assumes "recommendationAt g v = Some rec"
  shows "\<exists>s. getField v ''score'' g = (Inr s, g) \<and> (s = HUndefined \<longleftrightarrow> score rec = None)"
proof -
  have "\<exists>s. fst (getField v ''score'' g) = Inr s \<and> (s = HUndefined \<longleftrightarrow> score rec = None)"
    using assms
    by (auto simp: recommendationAt_def split: sum.splits hval.splits jsnum.splits)
  then show ?thesis
    using reads_getField [of v "''score''"] by (metis prod.collapse reads_def)
qed

lemma check_run:
  assumes "list_all2 (\<lambda>v rec. recommendationAt g v = Some rec) rs recs"
  shows "forEachH (\<lambda>index prod.
             bindH (getField prod ''score'')
               (\<lambda>s. if s = HUndefined then throw TypeError else ret ())) j0 rs g =
           (if list_ex (\<lambda>rec. score rec = None) recs then Inl TypeError else Inr (), g)"
  using assms
proof (induction rs recs arbitrary: j0 rule: list_all2_induct)
  case Nil
  show ?case by (simp add: ret_def)
next
  case (Cons v rs rec recs)
  obtain s where s: "getField v ''score'' g = (Inr s, g)"
    and u: "s = HUndefined \<longleftrightarrow> score rec = None"
    using recommendation_score [OF Cons.hyps(1)] by (elim exE conjE)
  let ?check = "\<lambda>index prod. bindH (getField prod ''score'')
               (\<lambda>s. if s = HUndefined then throw TypeError else ret ())"
  have inner: "?check j0 v g = (if score rec = None then Inl TypeError else Inr (), g)"
    using u by (simp add: bindH_def s throw_def ret_def)
  have unfold: "forEachH ?check j0 (v # rs) g =
      (case ?check j0 v g of (Inl e, h1) \<Rightarrow> (Inl e, h1)
       | (Inr x, h1) \<Rightarrow> forEachH ?check (Suc j0) rs h1)"
    by (simp only: forEachH.simps bindH_def)
  show ?case
  proof (cases "score rec = None")
    case True
    then show ?thesis by (simp only: unfold inner) simp
  next
    case False
    then show ?thesis using Cons.IH [of "Suc j0"] by (simp only: unfold inner) simp
  qed
qed

lemma logTop_run:
  assumes "a < length g" "g ! a = Arr rs"
    and "list_all2 (\<lambda>v rec. recommendationAt g v = Some rec) rs recs"
  shows "logTop (HRef a) g =
           (if list_ex (\<lambda>rec. score rec = None) (take 3 recs) then Inl TypeError else Inr (), g)"
proof -
  have "list_all2 (\<lambda>v rec. recommendationAt g v = Some rec) (take 3 rs) (take 3 recs)"
    using assms(3) by (rule list_all2_takeI)
  then show ?thesis
    using assms(1,2) by (simp add: logTop_def bindH_def elements_def check_run)
qed

lemma rankedProducts_entries:
  "rankedProducts ps pa = map (\<lambda>(i, r). rankedEntry pa (ps ! i) i r) (ranked pa (length ps))"
proof -
  have "updateRanks (map (entryAt ps pa) (rankOrder pa (length ps))) =
          map (\<lambda>(i, r). rankedEntry pa (ps ! i) i r) (ranked pa (length ps))"
  proof (rule nth_equalityI)
    show "length (updateRanks (map (entryAt ps pa) (rankOrder pa (length ps)))) =
          length (map (\<lambda>(i, r). rankedEntry pa (ps ! i) i r) (ranked pa (length ps)))"
      by (simp add: updateRanks_def ranked_def)
  next
    fix k assume "k < length (updateRanks (map (entryAt ps pa) (rankOrder pa (length ps))))"
    then have k: "k < length (rankOrder pa (length ps))"
      by (simp add: updateRanks_def)
    then show "updateRanks (map (entryAt ps pa) (rankOrder pa (length ps))) ! k =
          map (\<lambda>(i, r). rankedEntry pa (ps ! i) i r) (ranked pa (length ps)) ! k"
      by (simp add: updateRanks_def ranked_def nth_enumerate_eq entryAt_def rankedEntry_def)
  qed
  then show ?thesis by (simp add: rankedProducts_def sorted_entries)
qed

lemma ranked_refs:
  "map (\<lambda>(i, r). HRef (n + i)) (ranked pa N) = map (\<lambda>i. HRef (n + i)) (rankOrder pa N)"
proof -
  have "map (\<lambda>(i, r). HRef (n + i)) (ranked pa N) =
          map ((\<lambda>i. HRef (n + i)) \<circ> snd) (enumerate 0 (rankOrder pa N))"
    by (simp add: ranked_def comp_def case_prod_unfold)
  also have "\<dots> = map (\<lambda>i. HRef (n + i)) (map snd (enumerate 0 (rankOrder pa N)))"
    by (simp only: map_map)
  finally show ?thesis by simp
qed

lemma ranked_nth:
  assumes "(i, r) \<in> set (ranked pa N)"
  shows "\<exists>k<length (rankOrder pa N). i = rankOrder pa N ! k \<and> r = k + 1"
proof -
  obtain j where "(j, i) \<in> set (enumerate 0 (rankOrder pa N))" "r = j + 1"
    using assms by (auto simp: ranked_def)
  then show ?thesis by (auto simp: in_set_enumerate_eq)
qed

lemma upt_shift: "map HRef [n..<n + N] = map (\<lambda>i. HRef (n + i)) [0..<N]"
proof -
  have "[n..<n + N] = map (\<lambda>i. n + i) [0..<N]"
    using map_add_upt [of n N] by (simp add: add.commute)
  then show ?thesis by (simp add: comp_def del: upt_Suc)
qed

lemma ranking_run:
  assumes cat: "catalogAt h products = Some ps"
  shows "\<exists>g v.
     bindH (arrayMap (scoredObject pa) products) (\<lambda>rankedProducts.
     bindH (sortByScore rankedProducts) (\<lambda>u.
     bindH (updateRanksH rankedProducts) (\<lambda>u.
     bindH (arrayMap (explainedObject rt c) rankedProducts) (\<lambda>result.
     bindH (logTop result) (\<lambda>u. ret result))))) h =
       (if list_ex (\<lambda>prod. score prod = None)
             (take 3 (rankedProductsWithExplanations rt c ps pa))
        then Inl TypeError else Inr v, g) \<and>
     recommendationsAt g v = Some (rankedProductsWithExplanations rt c ps pa)"
proof -
  obtain vs where el: "elements products h = (Inr vs, h)"
    and all2: "list_all2 (\<lambda>v p. productAt h v = Some p) vs ps"
    using catalogAt_elements [OF cat] by (elim exE conjE)
  define n where "n = length h"
  define N where "N = length vs"
  have lps: "length ps = N" using all2 by (simp add: N_def list_all2_lengthD)
  define ord where "ord = rankOrder pa N"
  define irs where "irs = ranked pa N"
  define out where "out = rankedProductsWithExplanations rt c ps pa"
  have prod_at: "productAt h (vs ! i) = Some (ps ! i)" if "i < N" for i
    using list_all2_nthD [OF all2, of i] that by (simp add: N_def)
  have ord_lt: "i < N" if "i \<in> set ord" for i
    using that by (simp add: ord_def set_rankOrder)
  have ord_len: "length ord = N" by (simp add: ord_def length_rankOrder)
  have ord_dist: "distinct ord" by (simp add: ord_def distinct_rankOrder)

  \<comment> \<open>the first \<open>map\<close>\<close>
  define cells where "cells = map (\<lambda>(j, v). scoredCell pa h j v) (enumerate 0 vs)"
  define h2 where "h2 = (h @ cells) @ [Arr (map (\<lambda>i. HRef (n + i)) [0..<N])]"
  have lc: "length cells = N" by (simp add: cells_def N_def)
  have m1: "mapH (scoredObject pa) 0 vs h = (Inr (map (\<lambda>i. HRef (n + i)) [0..<N]), h @ cells)"
    using mapH_scored_run [OF all2 unchanged_refl [OF order_refl], of pa 0]
    by (simp only: n_def [symmetric] N_def [symmetric] cells_def [symmetric] upt_shift)
  have s1: "arrayMap (scoredObject pa) products h = (Inr (HRef (n + N)), h2)"
    by (simp add: arrayMap_def bindH_def el m1 alloc_def h2_def lc n_def)
  have len2: "length h2 = n + N + 1" by (simp add: h2_def lc n_def)
  have cell2: "h2 ! (n + i) = scoredCell pa h i (vs ! i)" if "i < N" for i
  proof -
    have "h2 ! (n + i) = cells ! i"
      using that by (simp add: h2_def nth_append lc n_def)
    then show ?thesis using that by (simp add: cells_def N_def nth_enumerate_eq)
  qed
  have arr2: "h2 ! (n + N) = Arr (map (\<lambda>i. HRef (n + i)) [0..<N])"
    by (simp add: h2_def nth_append lc n_def)
  have low2: "h2 ! a = h ! a" if "a < n" for a
    using that by (simp add: h2_def nth_append n_def)

  \<comment> \<open>the sort\<close>
  define h3 where "h3 = h2[n + N := Arr (map (\<lambda>i. HRef (n + i)) ord)]"
  have s2: "sortByScore (HRef (n + N)) h2 = (Inr (), h3)"
    unfolding h3_def ord_def
    by (rule sortByScore_run [where h = h and vs = vs]) (simp_all add: len2 cell2 arr2)
  have len3: "length h3 = n + N + 1" by (simp add: h3_def len2)
  have cell3: "h3 ! (n + i) = scoredCell pa h i (vs ! i)" if "i < N" for i
    using that cell2 by (simp add: h3_def)
  have arr3: "h3 ! (n + N) = Arr (map (\<lambda>i. HRef (n + i)) ord)"
    by (simp add: h3_def len2)
  have low3: "h3 ! a = h ! a" if "a < n" for a
    using that low2 by (simp add: h3_def)

  \<comment> \<open>the new ranks\<close>
  have pre3: "\<forall>i\<in>set ord. n + i < length h3 \<and> h3 ! (n + i) = scoredCell pa h i (vs ! i)"
  proof
    fix i assume "i \<in> set ord"
    then have "i < N" by (rule ord_lt)
    then show "n + i < length h3 \<and> h3 ! (n + i) = scoredCell pa h i (vs ! i)"
      using cell3 by (simp add: len3)
  qed
  obtain g4 where
    f4: "forEachH (\<lambda>index product. setField product ''rank'' (HNum (Fin (real (index + 1)))))
           0 (map (\<lambda>i. HRef (n + i)) ord) h3 = (Inr (), g4)" and
    len4': "length g4 = length h3" and
    other4: "\<forall>a. a \<notin> (\<lambda>i. n + i) ` set ord \<longrightarrow> g4 ! a = h3 ! a" and
    these4: "\<forall>k<length ord. g4 ! (n + ord ! k) = rankedCell pa h (ord ! k) (vs ! (ord ! k)) (0 + k + 1)"
    using forEach_rank_run [OF ord_dist pre3, of 0] by (elim exE conjE)
  have len4: "length g4 = n + N + 1" using len4' len3 by simp
  have el3: "elements (HRef (n + N)) h3 = (Inr (map (\<lambda>i. HRef (n + i)) ord), h3)"
    by (simp add: elements_def len3 arr3)
  have s3: "updateRanksH (HRef (n + N)) h3 = (Inr (), g4)"
    by (simp only: updateRanksH_def bindH_def el3 prod.case sum.case f4)
  have ord_set: "set ord = {0..<N}" by (simp add: ord_def set_rankOrder)
  have notin: "a \<notin> (\<lambda>i. n + i) ` set ord" if "a < n \<or> a = n + N" for a
    using that by (auto simp: ord_set)
  have arr4: "g4 ! (n + N) = Arr (map (\<lambda>i. HRef (n + i)) ord)"
    using other4 notin arr3 by simp
  have low4: "g4 ! a = h ! a" if "a < n" for a
    using other4 notin low3 that by simp
  have u4: "unchanged (length h) h g4"
  proof -
    have "take n g4 = h"
      by (rule nth_equalityI) (simp_all add: len4 n_def [symmetric] low4)
    then show ?thesis by (simp add: unchanged_def n_def [symmetric] len4)
  qed

  \<comment> \<open>the second \<open>map\<close>\<close>
  have pre4: "\<forall>(i, r)\<in>set irs. productAt h (vs ! i) = Some (ps ! i) \<and> n + i < length g4 \<and>
            g4 ! (n + i) = rankedCell pa h i (vs ! i) r"
  proof (clarify)
    fix i r assume "(i, r) \<in> set irs"
    then obtain k where k: "k < length ord" "i = ord ! k" "r = k + 1"
      using ranked_nth [of i r pa N] by (auto simp: irs_def ord_def)
    then have iN: "i < N" using ord_lt by simp
    show "productAt h (vs ! i) = Some (ps ! i) \<and> n + i < length g4 \<and>
            g4 ! (n + i) = rankedCell pa h i (vs ! i) r"
      using prod_at [OF iN] iN these4 k by (simp add: len4)
  qed
  define m where "m = length g4"
  define ecells where "ecells = map (\<lambda>(i, r). explainedCell rt c pa (ps ! i) i r) irs"
  define h5 where "h5 = (g4 @ ecells) @ [Arr (map (\<lambda>k. HRef (m + k)) [0..<N])]"
  have lirs: "length irs = N" by (simp add: irs_def ranked_def length_rankOrder)
  have le: "length ecells = N" by (simp add: ecells_def lirs)
  have nle: "length h \<le> length g4" by (simp add: len4 n_def [symmetric])
  have m2: "mapH (explainedObject rt c) 0 (map (\<lambda>(i, r). HRef (n + i)) irs) g4 =
              (Inr (map (\<lambda>k. HRef (m + k)) [0..<N]), g4 @ ecells)"
    using mapH_explained_run [OF u4 nle unchanged_refl [OF order_refl] pre4, of rt c 0]
    by (simp only: m_def [symmetric] lirs ecells_def [symmetric] upt_shift)
  have refs: "map (\<lambda>i. HRef (n + i)) ord = map (\<lambda>(i, r). HRef (n + i)) irs"
    by (simp only: irs_def ord_def ranked_refs)
  have s4: "arrayMap (explainedObject rt c) (HRef (n + N)) g4 = (Inr (HRef (m + N)), h5)"
    by (simp add: arrayMap_def bindH_def elements_def len4 arr4 refs m2 alloc_def h5_def le m_def)
  have len5: "length h5 = m + N + 1" by (simp add: h5_def le m_def)
  have arr5: "h5 ! (m + N) = Arr (map (\<lambda>k. HRef (m + k)) [0..<N])"
    by (simp add: h5_def nth_append le m_def)
  have cell5: "h5 ! (m + k) = ecells ! k" if "k < N" for k
    using that by (simp add: h5_def nth_append le m_def)

  \<comment> \<open>what the result denotes\<close>
  have out_eq: "out = map (\<lambda>(i, r). withExplanation rt c (rankedEntry pa (ps ! i) i r)) irs"
    by (simp add: out_def rankedProductsWithExplanations_def rankedProducts_entries lps irs_def
        comp_def case_prod_unfold)
  have dec: "list_all2 (\<lambda>v rec. recommendationAt h5 v = Some rec)
               (map (\<lambda>k. HRef (m + k)) [0..<N]) out"
  proof (rule list_all2_all_nthI)
    show "length (map (\<lambda>k. HRef (m + k)) [0..<N]) = length out"
      by (simp add: out_eq lirs)
  next
    fix k assume "k < length (map (\<lambda>k. HRef (m + k)) [0..<N])"
    then have k: "k < N" by simp
    obtain i r where ir: "irs ! k = (i, r)" by (cases "irs ! k")
    have "h5 ! (m + k) = explainedCell rt c pa (ps ! i) i r"
      using cell5 [OF k] k ir by (simp add: ecells_def lirs)
    then have "recommendationAt h5 (HRef (m + k)) =
                 Some (withExplanation rt c (rankedEntry pa (ps ! i) i r))"
      using k by (intro recommendationAt_cell) (simp_all add: len5)
    then show "recommendationAt h5 (map (\<lambda>k. HRef (m + k)) [0..<N] ! k) = Some (out ! k)"
      using k ir by (simp add: out_eq lirs)
  qed
  have s5: "logTop (HRef (m + N)) h5 =
              (if list_ex (\<lambda>rec. score rec = None) (take 3 out) then Inl TypeError else Inr (), h5)"
    by (rule logTop_run [OF _ arr5 dec]) (simp add: len5)
  have den: "recommendationsAt h5 (HRef (m + N)) = Some out"
    using list_all2_those [OF dec] by (simp add: recommendationsAt_def elements_def len5 arr5)
  have run: "bindH (arrayMap (scoredObject pa) products) (\<lambda>rankedProducts.
     bindH (sortByScore rankedProducts) (\<lambda>u.
     bindH (updateRanksH rankedProducts) (\<lambda>u.
     bindH (arrayMap (explainedObject rt c) rankedProducts) (\<lambda>result.
     bindH (logTop result) (\<lambda>u. ret result))))) h =
       (if list_ex (\<lambda>prod. score prod = None) (take 3 out)
        then Inl TypeError else Inr (HRef (m + N)), h5)"
    by (simp add: bindH_def s1 s2 s3 s4 s5 ret_def)
  show ?thesis
    using run den unfolding out_def by blast
qed

text \<open>
  On a store where \<open>products\<close> denotes the catalog \<open>ps\<close>, the call on the store throws
  exactly when the function on values does, and otherwise the array it returns denotes
  the list the function on values returns.
\<close>

lemma store_refines_values:
  assumes "catalogAt h products = Some ps"
  shows "case getRecommendations rt model normData customer ps of
           Inl e \<Rightarrow> fst (getRecommendationsH rt model normData customer products h) = Inl e
         | Inr recs \<Rightarrow>
             \<exists>v. fst (getRecommendationsH rt model normData customer products h) = Inr v \<and>
                 recommendationsAt
                   (snd (getRecommendationsH rt model normData customer products h)) v = Some recs"
proof (cases normData)
  case None
  have "recommendationsAt (h @ [Arr []]) (HRef (length h)) = Some []"
    by (simp add: recommendationsAt_def elements_def)
  then show ?thesis
    using None by (simp add: getRecommendations_def getRecommendationsH_def alloc_def)
next
  case (Some nd)
  let ?pre = "preprocessCustomers [customer] ! 0"
  let ?pa = "predictionArrayOf model nd
       (map (\<lambda>feature. jsOr (getProp ?pre feature) (Num (Fin 0))) continuousFeatures)
       (map (\<lambda>feature. jsOr (getProp ?pre feature) (Num (Fin 0))) categoricalFeatures)"
  show ?thesis
  proof (cases ?pa)
    case (Inl e)
    then show ?thesis
      using Some by (simp add: getRecommendations_def getRecommendationsH_def bindE_def throw_def)
  next
    case (Inr pa)
    let ?out = "rankedProductsWithExplanations rt ?pre ps pa"
    obtain g v where
      run: "bindH (arrayMap (scoredObject pa) products) (\<lambda>rankedProducts.
         bindH (sortByScore rankedProducts) (\<lambda>u.
         bindH (updateRanksH rankedProducts) (\<lambda>u.
         bindH (arrayMap (explainedObject rt ?pre) rankedProducts) (\<lambda>result.
         bindH (logTop result) (\<lambda>u. ret result))))) h =
           (if list_ex (\<lambda>prod. score prod = None) (take 3 ?out) then Inl TypeError else Inr v, g)"
      and den: "recommendationsAt g v = Some ?out"
      using ranking_run [OF assms, of pa rt ?pre] by (elim exE conjE)
    have H: "getRecommendationsH rt model normData customer products h =
           (if list_ex (\<lambda>prod. score prod = None) (take 3 ?out) then Inl TypeError else Inr v, g)"
      using Some Inr run by (simp add: getRecommendationsH_def)
    have V: "getRecommendations rt model normData customer ps =
           (if list_ex (\<lambda>prod. score prod = None) (take 3 ?out) then Inl TypeError else Inr ?out)"
      using Some Inr by (simp add: getRecommendations_def bindE_def)
    show ?thesis
      using den by (simp add: H V)
  qed
qed

end
